(* ===== verification/Prelude.thy ===== *)
theory Prelude
  imports Main "HOL-Library.AList" "HOL-Library.Word"
begin

text \<open>
  The shared vocabulary of the development: the part of Rust's core and standard
  library that the sources use, with the generic lemmas the components share.

  \<^item> integers: \<open>usize\<close> is 64 bits wide (the constant table \<open>SKIP_DEPTHS\<close> of
    \<open>blockchain/src/memory/chain.rs\<close> ends with \<open>4usize.pow(16) = 2^32\<close>, which
    does not compile for a narrower \<open>usize\<close>); \<open>+\<close> wraps, as in a release build;
  \<^item> \<open>Result\<close> with the combinators \<open>ok_or\<close>, \<open>map_err\<close>, \<open>map_ok\<close> and the
    early return of the \<open>?\<close> operator (\<open>and_then\<close>);
  \<^item> \<open>HashMap\<close> as an association list with distinct keys. The list order stands for
    the unspecified iteration order of the hash table: a theorem over all such lists is a
    theorem over all iteration orders;
  \<^item> \<open>BTreeMap\<close> as an association list with strictly ascending keys;
  \<^item> the entry API \<open>m.entry(k).or_default()\<close> followed by an update in place, over any
    map that satisfies the interface \<open>keyed_map\<close>.
\<close>

named_theorems result_simps \<open>equations of the Result combinators\<close>
named_theorems map_simps \<open>lookups after updates of HashMap and BTreeMap\<close>

section \<open>Integers\<close>

type_synonym u8 = "8 word"
type_synonym u32 = "32 word"
type_synonym u64 = "64 word"
type_synonym usize = "64 word"

lemma unat_Suc_of_less:
  fixes a b :: "'a::len word"
  assumes "a < b"
  shows "unat (a + 1) = Suc (unat a)"
proof -
  have "unat a < unat b" using assms by (simp add: word_less_nat_alt)
  then have "Suc (unat a) < 2 ^ LENGTH('a)"
    using unsigned_less [of b, where ?'a = nat] by linarith
  then show ?thesis by (simp add: unat_word_ariths)
qed

lemma unat_diff_of_le:
  fixes a b :: "'a::len word"
  assumes "b \<le> a"
  shows "unat (a - b) = unat a - unat b"
  using assms by (simp add: unat_sub)

lemma word_mod_eq_0_iff:
  fixes a b :: "'a::len word"
  shows "a mod b = 0 \<longleftrightarrow> unat b dvd unat a"
  by (simp add: word_unat_eq_iff unat_mod_distrib dvd_eq_mod_eq_0)

section \<open>Result\<close>

datatype ('a, 'e) Result = Ok 'a | Err 'e

fun and_then :: "('a, 'e) Result \<Rightarrow> ('a \<Rightarrow> ('b, 'e) Result) \<Rightarrow> ('b, 'e) Result" where
  "and_then (Ok a) f = f a"
| "and_then (Err e) f = Err e"

fun map_err :: "('e \<Rightarrow> 'f) \<Rightarrow> ('a, 'e) Result \<Rightarrow> ('a, 'f) Result" where
  "map_err f (Ok a) = Ok a"
| "map_err f (Err e) = Err (f e)"

fun map_ok :: "('a \<Rightarrow> 'b) \<Rightarrow> ('a, 'e) Result \<Rightarrow> ('b, 'e) Result" where
  "map_ok f (Ok a) = Ok (f a)"
| "map_ok f (Err e) = Err e"

fun ok_or :: "'e \<Rightarrow> 'a option \<Rightarrow> ('a, 'e) Result" where
  "ok_or e (Some a) = Ok a"
| "ok_or e None = Err e"

fun is_ok :: "('a, 'e) Result \<Rightarrow> bool" where
  "is_ok (Ok _) = True"
| "is_ok (Err _) = False"

declare and_then.simps [result_simps] map_err.simps [result_simps] map_ok.simps [result_simps]
  ok_or.simps [result_simps]

lemma and_then_eq_Ok:
  "and_then r f = Ok b \<longleftrightarrow> (\<exists>a. r = Ok a \<and> f a = Ok b)"
  by (cases r) auto

lemma and_then_eq_Err:
  "and_then r f = Err e \<longleftrightarrow> r = Err e \<or> (\<exists>a. r = Ok a \<and> f a = Err e)"
  by (cases r) auto

lemma map_err_eq_Ok [simp]: "map_err f r = Ok a \<longleftrightarrow> r = Ok a"
  by (cases r) auto

lemma map_err_eq_Err: "map_err f r = Err e \<longleftrightarrow> (\<exists>d. r = Err d \<and> e = f d)"
  by (cases r) auto

lemma map_ok_eq_Ok: "map_ok f r = Ok b \<longleftrightarrow> (\<exists>a. r = Ok a \<and> b = f a)"
  by (cases r) auto

lemma map_ok_eq_Err [simp]: "map_ok f r = Err e \<longleftrightarrow> r = Err e"
  by (cases r) auto

lemma ok_or_eq_Ok [simp]: "ok_or e m = Ok a \<longleftrightarrow> m = Some a"
  by (cases m) auto

lemma ok_or_eq_Err: "ok_or e m = Err d \<longleftrightarrow> m = None \<and> d = e"
  by (cases m) auto

lemma is_ok_iff: "is_ok r \<longleftrightarrow> (\<exists>a. r = Ok a)"
  by (cases r) auto

section \<open>HashMap\<close>

type_synonym ('k, 'v) HashMap = "('k \<times> 'v) list"

abbreviation HashMap_get :: "('k, 'v) HashMap \<Rightarrow> 'k \<Rightarrow> 'v option" where
  "HashMap_get \<equiv> map_of"

abbreviation HashMap_insert :: "'k \<Rightarrow> 'v \<Rightarrow> ('k, 'v) HashMap \<Rightarrow> ('k, 'v) HashMap" where
  "HashMap_insert \<equiv> AList.update"

abbreviation HashMap_remove :: "'k \<Rightarrow> ('k, 'v) HashMap \<Rightarrow> ('k, 'v) HashMap" where
  "HashMap_remove \<equiv> AList.delete"

text \<open>\<open>get_mut\<close> and an update through the reference it returns.\<close>

abbreviation HashMap_modify ::
  "'k \<Rightarrow> ('v \<Rightarrow> 'v) \<Rightarrow> ('k, 'v) HashMap \<Rightarrow> ('k, 'v) HashMap" where
  "HashMap_modify \<equiv> AList.map_entry"

abbreviation HashMap_invar :: "('k, 'v) HashMap \<Rightarrow> bool" where
  "HashMap_invar m \<equiv> distinct (map fst m)"

lemma HashMap_get_insert [map_simps]:
  "HashMap_get (HashMap_insert k v m) k' = (if k' = k then Some v else HashMap_get m k')"
  by (simp add: update_conv')

lemma HashMap_get_modify [map_simps]:
  "HashMap_get (HashMap_modify k f m) k' =
     (if k' = k then map_option f (HashMap_get m k) else HashMap_get m k')"
  by (simp add: map_of_map_entry map_option_case)

lemma HashMap_get_remove [map_simps]:
  "HashMap_get (HashMap_remove k m) k' = (if k' = k then None else HashMap_get m k')"
  by (simp add: delete_conv')

lemma HashMap_ball:
  "HashMap_invar m \<Longrightarrow> (\<forall>(k, v) \<in> set m. P k v) \<longleftrightarrow> (\<forall>k v. HashMap_get m k = Some v \<longrightarrow> P k v)"
  by (auto simp: map_of_eq_Some_iff)

section \<open>BTreeMap\<close>

type_synonym ('k, 'v) BTreeMap = "('k \<times> 'v) list"

abbreviation BTreeMap_get :: "('k, 'v) BTreeMap \<Rightarrow> 'k \<Rightarrow> 'v option" where
  "BTreeMap_get \<equiv> map_of"

fun BTreeMap_insert :: "'k::linorder \<Rightarrow> 'v \<Rightarrow> ('k, 'v) BTreeMap \<Rightarrow> ('k, 'v) BTreeMap" where
  "BTreeMap_insert k v [] = [(k, v)]"
| "BTreeMap_insert k v ((l, w) # m) =
     (if k < l then (k, v) # (l, w) # m
      else if k = l then (k, v) # m
      else (l, w) # BTreeMap_insert k v m)"

definition BTreeMap_invar :: "('k::linorder, 'v) BTreeMap \<Rightarrow> bool" where
  "BTreeMap_invar m \<longleftrightarrow> sorted_wrt (<) (map fst m)"

text \<open>\<open>range((Bound::Unbounded, Bound::Included(d))).rev()\<close>: the entries with key at
  most \<open>d\<close>, in descending order of their keys.\<close>

definition BTreeMap_range_to_rev ::
  "'k::linorder \<Rightarrow> ('k, 'v) BTreeMap \<Rightarrow> ('k \<times> 'v) list" where
  "BTreeMap_range_to_rev d m = rev (filter (\<lambda>(k, _). k \<le> d) m)"

lemma BTreeMap_get_insert [map_simps]:
  "BTreeMap_get (BTreeMap_insert k v m) k' = (if k' = k then Some v else BTreeMap_get m k')"
  if "BTreeMap_invar m"
  using that by (induction k v m rule: BTreeMap_insert.induct) (auto simp: BTreeMap_invar_def)

lemma BTreeMap_keys_insert:
  "fst ` set (BTreeMap_insert k v m) = insert k (fst ` set m)"
  by (induction k v m rule: BTreeMap_insert.induct) auto

lemma BTreeMap_invar_insert:
  "BTreeMap_invar m \<Longrightarrow> BTreeMap_invar (BTreeMap_insert k v m)"
proof (induction k v m rule: BTreeMap_insert.induct)
  case (2 k v l w m)
  then show ?case
    using BTreeMap_keys_insert [of k v m] by (fastforce simp: BTreeMap_invar_def)
qed (simp add: BTreeMap_invar_def)

lemma BTreeMap_distinct: "BTreeMap_invar m \<Longrightarrow> distinct (map fst m)"
  unfolding BTreeMap_invar_def by (simp add: strict_sorted_iff)

lemma BTreeMap_invar_Nil [simp]: "BTreeMap_invar []"
  by (simp add: BTreeMap_invar_def)

lemma set_BTreeMap_range_to_rev:
  "set (BTreeMap_range_to_rev d m) = {(k, v) \<in> set m. k \<le> d}"
  by (auto simp: BTreeMap_range_to_rev_def)

lemma sorted_BTreeMap_range_to_rev:
  "BTreeMap_invar m \<Longrightarrow> sorted_wrt (>) (map fst (BTreeMap_range_to_rev d m))"
  unfolding BTreeMap_invar_def BTreeMap_range_to_rev_def
  by (simp add: sorted_wrt_map sorted_wrt_rev sorted_wrt_filter)

section \<open>The entry API\<close>

text \<open>\<open>*m.entry(k).or_insert(d)\<close> updated with \<open>f\<close>; \<open>or_default()\<close> is the case
  where \<open>d\<close> is the empty collection.\<close>

definition entry_or ::
  "('m \<Rightarrow> 'k \<Rightarrow> 'v option) \<Rightarrow> ('k \<Rightarrow> 'v \<Rightarrow> 'm \<Rightarrow> 'm) \<Rightarrow> 'k \<Rightarrow> 'v \<Rightarrow> ('v \<Rightarrow> 'v) \<Rightarrow> 'm \<Rightarrow> 'm" where
  "entry_or get ins k d f m = ins k (f (case get m k of None \<Rightarrow> d | Some v \<Rightarrow> v)) m"

abbreviation HashMap_entry ::
  "'k \<Rightarrow> 'v \<Rightarrow> ('v \<Rightarrow> 'v) \<Rightarrow> ('k, 'v) HashMap \<Rightarrow> ('k, 'v) HashMap" where
  "HashMap_entry \<equiv> entry_or HashMap_get HashMap_insert"

abbreviation BTreeMap_entry ::
  "'k::linorder \<Rightarrow> 'v \<Rightarrow> ('v \<Rightarrow> 'v) \<Rightarrow> ('k, 'v) BTreeMap \<Rightarrow> ('k, 'v) BTreeMap" where
  "BTreeMap_entry \<equiv> entry_or BTreeMap_get BTreeMap_insert"

locale keyed_map =
  fixes get :: "'m \<Rightarrow> 'k \<Rightarrow> 'v option"
    and ins :: "'k \<Rightarrow> 'v \<Rightarrow> 'm \<Rightarrow> 'm"
    and invar :: "'m \<Rightarrow> bool"
  assumes get_ins: "invar m \<Longrightarrow> get (ins k v m) k' = (if k' = k then Some v else get m k')"
    and invar_ins: "invar m \<Longrightarrow> invar (ins k v m)"
begin

lemma get_entry_or:
  "invar m \<Longrightarrow> get (entry_or get ins k d f m) k' =
     (if k' = k then Some (f (case get m k of None \<Rightarrow> d | Some v \<Rightarrow> v)) else get m k')"
  by (simp add: entry_or_def get_ins)

lemma invar_entry_or: "invar m \<Longrightarrow> invar (entry_or get ins k d f m)"
  by (simp add: entry_or_def invar_ins)

lemma get_entry_or_pred:
  assumes "invar m" "\<And>v. get m k' = Some v \<Longrightarrow> P v" "P d" "\<And>v. P v \<Longrightarrow> P (f v)"
    and "get (entry_or get ins k d f m) k' = Some v"
  shows "P v"
  using assms by (auto simp: get_entry_or split: if_splits option.splits)

lemma invar_fold_ins: "invar m \<Longrightarrow> invar (fold (\<lambda>(k, v). ins k v) kvs m)"
  by (induction kvs arbitrary: m) (auto simp: invar_ins)

lemma get_fold_ins:
  "invar m \<Longrightarrow> get (fold (\<lambda>(k, v). ins k v) kvs m) k =
     (case map_of (rev kvs) k of None \<Rightarrow> get m k | Some v \<Rightarrow> Some v)"
proof (induction kvs arbitrary: m)
  case (Cons kv kvs)
  then show ?case
    by (cases kv) (auto simp: invar_ins get_ins map_add_def split: option.splits)
qed simp

end

interpretation hm: keyed_map HashMap_get HashMap_insert HashMap_invar
  by unfold_locales (simp_all add: HashMap_get_insert distinct_update)

interpretation bt: keyed_map BTreeMap_get BTreeMap_insert BTreeMap_invar
  by unfold_locales (simp_all add: BTreeMap_get_insert BTreeMap_invar_insert)

end
