(* ===== verification/ForkTree.thy ===== *)
theory ForkTree
  imports Prelude
begin

text \<open>
  The traits of \<open>blockchain/src/block.rs\<close> and \<open>blockchain/src/chain.rs\<close>.

  A trait is a record of its methods (the dictionary a generic Rust function receives), so
  that code generic over the trait takes the record as an argument. The default method
  \<open>ForkTree::is_ancestor\<close> is defined over that record.

  The locale \<open>fork_tree\<close> states what the documentation of the trait promises of
  \<open>block_depth\<close> and \<open>ancestor_id_at_depth\<close>, relative to the parent function of the
  tree: depths count parent steps, a block is its own ancestor at its own depth, and an
  answer is the right ancestor. \<open>complete_fork_tree\<close> adds that every depth up to the
  block's own is answered. Clients (the flat state, the overlay) are verified against these
  two contracts. \<open>fork_tree_mut\<close> and \<open>block_builder\<close> are the contracts of insertion and of block
  building.
\<close>

section \<open>Blocks\<close>

text \<open>\<open>trait Identified\<close>.\<close>

record ('b, 'id) Identified =
  block_id :: "'b \<Rightarrow> 'id"
  block_parent_id :: "'b \<Rightarrow> 'id option"

text \<open>\<open>trait Keyed\<close> and \<open>trait Headered\<close>.\<close>

record ('b, 'key) Keyed =
  block_key :: "'b \<Rightarrow> 'key"

record ('b, 'header) Headered =
  block_header :: "'b \<Rightarrow> 'header"

section \<open>Fork trees\<close>

text \<open>\<open>trait ForkTree\<close>: its required methods.\<close>

record ('t, 'b, 'id, 'qe) ForkTree =
  ft_block :: "'t \<Rightarrow> 'id \<Rightarrow> ('b, 'qe) Result"
  ft_block_depth :: "'t \<Rightarrow> 'id \<Rightarrow> (usize, 'qe) Result"
  ft_ancestor_id_at_depth :: "'t \<Rightarrow> 'id \<Rightarrow> usize \<Rightarrow> ('id, 'qe) Result"

text \<open>The default method \<open>is_ancestor\<close>: two fallible queries, then a comparison.\<close>

definition ForkTree_is_ancestor ::
  "('t, 'b, 'id, 'qe) ForkTree \<Rightarrow> 't \<Rightarrow> 'id \<Rightarrow> 'id \<Rightarrow> (bool, 'qe) Result" where
  "ForkTree_is_ancestor F t i ancestor_id =
     and_then (ft_block_depth F t ancestor_id) (\<lambda>ancestor_depth.
     and_then (ft_ancestor_id_at_depth F t i ancestor_depth) (\<lambda>a.
     Ok (a = ancestor_id)))"

text \<open>\<open>trait ForkTreeMut\<close> and \<open>trait ForkTreeTransactional\<close>, each with the dictionary of its
  supertrait. A method with \<open>&mut self\<close> returns the changed receiver, one with a \<open>&mut\<close> argument the
  changed argument.\<close>

record ('t, 'b, 'id, 'qe, 'ie) ForkTreeMut =
  ftm_fork_tree :: "('t, 'b, 'id, 'qe) ForkTree"
  ftm_insert :: "'t \<Rightarrow> 'b \<Rightarrow> (unit, 'ie) Result \<times> 't"

record ('t, 'b, 'id, 'qe, 'tx, 'ie) ForkTreeTransactional =
  ftt_fork_tree :: "('t, 'b, 'id, 'qe) ForkTree"
  ftt_insert :: "'t \<Rightarrow> 'tx \<Rightarrow> 'b \<Rightarrow> (unit, 'ie) Result \<times> 'tx"

text \<open>\<open>trait ImportBlock\<close> and \<open>trait BlockBuilder\<close>.\<close>

record ('c, 'b, 'e) ImportBlock =
  ib_import :: "'c \<Rightarrow> 'b \<Rightarrow> (unit, 'e) Result \<times> 'c"

record ('self, 'c, 'b, 'id, 'ex, 'e, 'pre, 'post) BlockBuilder =
  bbd_initialize :: "'c \<Rightarrow> 'id \<Rightarrow> 'pre \<Rightarrow> ('self, 'e) Result"
  bbd_apply_extrinsic :: "'ex \<Rightarrow> 'self \<Rightarrow> (unit, 'e) Result \<times> 'self"
  bbd_finalize :: "'post \<Rightarrow> 'self \<Rightarrow> ('b, 'e) Result"

text \<open>The use of a builder: initialise, apply the extrinsics, finalise, and stop at the first
  error.\<close>

fun apply_all ::
  "('self, 'c, 'b, 'id, 'ex, 'e, 'pre, 'post) BlockBuilder \<Rightarrow> 'ex list \<Rightarrow> 'self \<Rightarrow> ('self, 'e) Result" where
  "apply_all D [] s = Ok s"
| "apply_all D (e # es) s =
     (case bbd_apply_extrinsic D e s of (Ok _, s') \<Rightarrow> apply_all D es s' | (Err err, _) \<Rightarrow> Err err)"

definition build_block ::
  "('self, 'c, 'b, 'id, 'ex, 'e, 'pre, 'post) BlockBuilder \<Rightarrow> 'c \<Rightarrow> 'id \<Rightarrow> 'pre \<Rightarrow> 'ex list \<Rightarrow> 'post \<Rightarrow>
     ('b, 'e) Result" where
  "build_block D c parent_id pre_log es post_log =
     and_then (bbd_initialize D c parent_id pre_log) (\<lambda>s.
     and_then (apply_all D es s) (bbd_finalize D post_log))"

section \<open>Ancestors by parent steps\<close>

text \<open>The specification of ancestry: \<open>climb par n i\<close> is the block \<open>n\<close> parent steps
  above \<open>i\<close>.\<close>

primrec climb :: "('id \<Rightarrow> 'id option) \<Rightarrow> nat \<Rightarrow> 'id \<Rightarrow> 'id option" where
  "climb par 0 i = Some i"
| "climb par (Suc n) i = (case par i of None \<Rightarrow> None | Some j \<Rightarrow> climb par n j)"

lemma climb_add:
  "climb par (m + n) i = Option.bind (climb par m i) (climb par n)"
  by (induction m arbitrary: i) (auto split: option.splits)

lemma climb_Suc_right:
  "climb par (Suc n) i = Option.bind (climb par n i) par"
proof -
  have "climb par (Suc n) i = climb par (n + 1) i" by simp
  also have "\<dots> = Option.bind (climb par n i) (climb par 1)" by (rule climb_add)
  also have "climb par 1 = par" by (rule ext) (auto split: option.splits)
  finally show ?thesis .
qed

lemma climb_cong:
  assumes "\<And>j. P j \<Longrightarrow> par j = par' j" "\<And>j k. P j \<Longrightarrow> par j = Some k \<Longrightarrow> P k" "P i"
  shows "climb par n i = climb par' n i"
  using assms(3) by (induction n arbitrary: i) (auto simp: assms split: option.splits)

section \<open>The contract of a fork tree\<close>

locale fork_tree =
  fixes F :: "('t, 'b, 'id, 'qe) ForkTree"
    and inv :: "'t \<Rightarrow> bool"
    and par :: "'t \<Rightarrow> 'id \<Rightarrow> 'id option"
  assumes root_depth:
      "inv t \<Longrightarrow> ft_block_depth F t i = Ok d \<Longrightarrow> par t i = None \<Longrightarrow> d = 0"
    and parent_depth:
      "inv t \<Longrightarrow> ft_block_depth F t i = Ok d \<Longrightarrow> par t i = Some j \<Longrightarrow>
         \<exists>e. ft_block_depth F t j = Ok e \<and> unat d = Suc (unat e)"
    and ancestor_own_depth:
      "inv t \<Longrightarrow> ft_block_depth F t i = Ok d \<Longrightarrow> ft_ancestor_id_at_depth F t i d = Ok i"
    and ancestor_sound:
      "inv t \<Longrightarrow> ft_block_depth F t i = Ok d \<Longrightarrow> ft_ancestor_id_at_depth F t i e = Ok a \<Longrightarrow>
         e \<le> d \<and> climb (par t) (unat d - unat e) i = Some a"
begin

lemma climb_depth:
  assumes "inv t" "ft_block_depth F t i = Ok d" "climb (par t) n i = Some a"
  shows "\<exists>e. ft_block_depth F t a = Ok e \<and> unat d = unat e + n"
  using assms(2,3)
proof (induction n arbitrary: i d)
  case (Suc n)
  then obtain j where j: "par t i = Some j" "climb (par t) n j = Some a"
    by (auto split: option.splits)
  from parent_depth [OF assms(1) Suc.prems(1) j(1)]
  obtain e where "ft_block_depth F t j = Ok e" "unat d = Suc (unat e)" by blast
  with Suc.IH [OF _ j(2)] show ?case by fastforce
qed simp

lemma climb_defined:
  assumes "inv t" "ft_block_depth F t i = Ok d" "n \<le> unat d"
  shows "\<exists>a. climb (par t) n i = Some a"
  using assms(2,3)
proof (induction n arbitrary: i d)
  case (Suc n)
  then have "d \<noteq> 0" by auto
  with root_depth [OF assms(1) Suc.prems(1)] obtain j where j: "par t i = Some j"
    by (cases "par t i") auto
  from parent_depth [OF assms(1) Suc.prems(1) j]
  obtain e where "ft_block_depth F t j = Ok e" "unat d = Suc (unat e)" by blast
  with Suc.IH [of j e] Suc.prems(2) j show ?case by auto
qed simp

text \<open>The default \<open>is_ancestor\<close> never gives a wrong answer.\<close>

lemma is_ancestor_sound:
  assumes "inv t" "ft_block_depth F t i = Ok d" "ft_block_depth F t s = Ok e"
    and "ForkTree_is_ancestor F t i s = Ok b"
  shows "b \<longleftrightarrow> e \<le> d \<and> climb (par t) (unat d - unat e) i = Some s"
  using assms ancestor_sound [OF assms(1,2)]
  by (auto simp: ForkTree_is_ancestor_def and_then_eq_Ok)

lemma is_ancestor_same_depth:
  assumes "inv t" "ft_block_depth F t i = Ok d" "ft_block_depth F t s = Ok d"
  shows "ForkTree_is_ancestor F t i s = Ok (i = s)"
  using assms ancestor_own_depth [OF assms(1,2)] by (simp add: ForkTree_is_ancestor_def)

end

locale complete_fork_tree = fork_tree +
  assumes ancestor_complete:
    "inv t \<Longrightarrow> ft_block_depth F t i = Ok d \<Longrightarrow> e \<le> d \<Longrightarrow>
       \<exists>a. ft_ancestor_id_at_depth F t i e = Ok a"
begin

lemma ancestor_eq_climb:
  assumes "inv t" "ft_block_depth F t i = Ok d" "e \<le> d"
  shows "map_ok Some (ft_ancestor_id_at_depth F t i e) = Ok (climb (par t) (unat d - unat e) i)"
  using ancestor_complete [OF assms] ancestor_sound [OF assms(1,2)] by fastforce

lemma is_ancestor_complete:
  assumes "inv t" "ft_block_depth F t i = Ok d" "ft_block_depth F t s = Ok e" "e \<le> d"
  shows "ForkTree_is_ancestor F t i s = Ok (climb (par t) (unat d - unat e) i = Some s)"
proof -
  obtain a where "ft_ancestor_id_at_depth F t i e = Ok a"
    using ancestor_complete [OF assms(1,2,4)] by blast
  then show ?thesis
    using assms(3) ancestor_sound [OF assms(1,2)] by (simp add: ForkTree_is_ancestor_def)
qed

end

section \<open>The contracts of insertion and of block building\<close>

text \<open>Insertions one after another, up to the first error.\<close>

fun insert_seq :: "('t, 'b, 'id, 'qe, 'ie) ForkTreeMut \<Rightarrow> 'b list \<Rightarrow> 't \<Rightarrow> ('t, 'ie) Result" where
  "insert_seq D [] t = Ok t"
| "insert_seq D (b # bs) t = (case ftm_insert D t b of (Ok _, t') \<Rightarrow> insert_seq D bs t' | (Err e, _) \<Rightarrow> Err e)"

text \<open>An insertion that succeeds stores the block under its identifier and moves no other.\<close>

locale fork_tree_mut =
  fixes D :: "('t, 'b, 'id, 'qe, 'ie) ForkTreeMut" and I :: "('b, 'id) Identified"
  assumes insert_found: "ftm_insert D t b = (Ok (), t') \<Longrightarrow> ft_block (ftm_fork_tree D) t' (block_id I b) = Ok b"
    and insert_other: "ftm_insert D t b = (Ok (), t') \<Longrightarrow> j \<noteq> block_id I b \<Longrightarrow>
      ft_block (ftm_fork_tree D) t' j = ft_block (ftm_fork_tree D) t j"
begin

lemma insert_seq_other:
  "insert_seq D bs t = Ok t' \<Longrightarrow> j \<notin> block_id I ` set bs \<Longrightarrow>
     ft_block (ftm_fork_tree D) t' j = ft_block (ftm_fork_tree D) t j"
  by (induction bs arbitrary: t) (auto simp: insert_other split: prod.splits Result.splits)

lemma insert_seq_found:
  assumes "insert_seq D bs t = Ok t'" "distinct (map (block_id I) bs)" "b \<in> set bs"
  shows "ft_block (ftm_fork_tree D) t' (block_id I b) = Ok b"
  using assms
proof (induction bs arbitrary: t)
  case (Cons a bs)
  then obtain t1 where t1: "ftm_insert D t a = (Ok (), t1)" "insert_seq D bs t1 = Ok t'"
    by (auto split: prod.splits Result.splits)
  show ?case
  proof (cases "b \<in> set bs")
    case True
    with Cons t1 show ?thesis by auto
  next
    case False
    with Cons.prems have "b = a" "block_id I a \<notin> block_id I ` set bs" by auto
    with insert_seq_other [OF t1(2)] insert_found [OF t1(1)] show ?thesis by simp
  qed
qed simp

end

text \<open>A builder collects the extrinsics in order on the parent it was initialised with.\<close>

locale block_builder =
  fixes D :: "('self, 'c, 'b, 'id, 'ex, 'e, 'pre, 'post) BlockBuilder" and I :: "('b, 'id) Identified"
    and extrinsics_of :: "'b \<Rightarrow> 'ex list" and draft :: "'self \<Rightarrow> 'b"
  assumes initialized: "bbd_initialize D c p pre = Ok s \<Longrightarrow>
      extrinsics_of (draft s) = [] \<and> block_parent_id I (draft s) = Some p"
    and applied: "bbd_apply_extrinsic D e s = (Ok (), s') \<Longrightarrow>
      extrinsics_of (draft s') = extrinsics_of (draft s) @ [e] \<and>
      block_parent_id I (draft s') = block_parent_id I (draft s) \<and> block_id I (draft s') = block_id I (draft s)"
    and finalized: "bbd_finalize D post s = Ok b \<Longrightarrow>
      extrinsics_of b = extrinsics_of (draft s) \<and> block_parent_id I b = block_parent_id I (draft s) \<and>
      block_id I b = block_id I (draft s)"
begin

lemma apply_all_draft:
  "apply_all D es s = Ok s' \<Longrightarrow>
     extrinsics_of (draft s') = extrinsics_of (draft s) @ es \<and>
     block_parent_id I (draft s') = block_parent_id I (draft s) \<and> block_id I (draft s') = block_id I (draft s)"
proof (induction es arbitrary: s)
  case (Cons e es)
  then obtain s1 where "bbd_apply_extrinsic D e s = (Ok (), s1)" "apply_all D es s1 = Ok s'"
    by (auto split: prod.splits Result.splits)
  with applied [OF this(1)] Cons.IH [OF this(2)] show ?case by simp
qed simp

lemma build_block_content:
  assumes "build_block D c p pre es post = Ok b"
  shows "extrinsics_of b = es \<and> block_parent_id I b = Some p"
proof -
  obtain s s' where "bbd_initialize D c p pre = Ok s" "apply_all D es s = Ok s'" "bbd_finalize D post s' = Ok b"
    using assms by (auto simp: build_block_def and_then_eq_Ok)
  with initialized [OF this(1)] apply_all_draft [OF this(2)] finalized [OF this(3)] show ?thesis by simp
qed

end

end
