(* ===== verification/MemoryForkTree.thy ===== *)
theory MemoryForkTree
  imports ForkTree
begin

text \<open>
  \<open>MemoryForkTree\<close> of \<open>blockchain/src/memory/chain.rs\<close>: the fork tree kept in memory,
  with a skip list of ancestors per block.

  \<^item> \<open>MemoryForkTree_block\<close>, \<open>MemoryForkTree_block_depth\<close>,
    \<open>MemoryForkTree_ancestor_id_at_depth\<close> and \<open>MemoryForkTree_insert\<close> are the methods;
    \<open>ancestor_loop\<close> is the \<open>loop\<close> inside \<open>ancestor_id_at_depth\<close>, whose result is
    \<open>None\<close> if it runs forever.
  \<^item> \<open>insert\<close> changes the tree step by step and can fail after its first change, so it
    returns the tree together with its result.
  \<^item> \<open>unq\<close> is \<open>Itertools::unique\<close> of the \<open>itertools\<close> package, a parameter of
    \<open>insert\<close>; \<open>unique_spec\<close> is what its documentation says of it.
  \<^item> \<open>wf_tree\<close> is the well-formedness of the stored blocks (identifiers, depths, skip
    lists), \<open>index_ok\<close> that of the child lists and of the depth index.
\<close>

section \<open>State\<close>

record ('b, 'id) MemoryForkTreeItem =
  item_block :: 'b
  item_depth :: usize
  item_children :: "'id list"
  item_ancestors :: "(usize \<times> 'id) list"

record ('b, 'id) MemoryForkTree =
  mft_blocks :: "('id, ('b, 'id) MemoryForkTreeItem) HashMap"
  mft_depths :: "(usize, 'id list) HashMap"

datatype MemoryForkTreeQueryError = UnknownBlock | InvalidAncestorDepth

datatype MemoryForkTreeInsertError = UnknownParent | Query MemoryForkTreeQueryError

section \<open>Queries\<close>

definition MemoryForkTree_new :: "('b, 'id) MemoryForkTree" where
  "MemoryForkTree_new = \<lparr>mft_blocks = [], mft_depths = []\<rparr>"

definition MemoryForkTree_block ::
  "('b, 'id) MemoryForkTree \<Rightarrow> 'id \<Rightarrow> ('b, MemoryForkTreeQueryError) Result" where
  "MemoryForkTree_block t i =
     map_ok item_block (ok_or UnknownBlock (HashMap_get (mft_blocks t) i))"

definition MemoryForkTree_block_depth ::
  "('b, 'id) MemoryForkTree \<Rightarrow> 'id \<Rightarrow> (usize, MemoryForkTreeQueryError) Result" where
  "MemoryForkTree_block_depth t i =
     map_ok item_depth (ok_or UnknownBlock (HashMap_get (mft_blocks t) i))"

text \<open>\<open>Iterator::reduce\<close> and the closure that keeps the entry of least depth.\<close>

fun iter_reduce :: "('a \<Rightarrow> 'a \<Rightarrow> 'a) \<Rightarrow> 'a list \<Rightarrow> 'a option" where
  "iter_reduce f [] = None"
| "iter_reduce f (x # xs) = Some (foldl f x xs)"

fun min_by_depth :: "usize \<times> 'id \<Rightarrow> usize \<times> 'id \<Rightarrow> usize \<times> 'id" where
  "min_by_depth (min_depth, min_id) (d, i) =
     (if d < min_depth then (d, i) else (min_depth, min_id))"

text \<open>The next block to visit: the skip-list entry of least depth that is still at or below
  the target, or the parent.\<close>

definition next_ancestor_id ::
  "('b, 'id) MemoryForkTreeItem \<Rightarrow> usize \<Rightarrow> 'id \<Rightarrow> 'id" where
  "next_ancestor_id current_block ancestor_depth parent_id =
     (case iter_reduce min_by_depth
             (filter (\<lambda>(d, _). d \<ge> ancestor_depth) (item_ancestors current_block)) of
        None \<Rightarrow> parent_id
      | Some (_, i) \<Rightarrow> i)"

partial_function (option) ancestor_loop ::
  "('b, 'id) Identified \<Rightarrow> ('b, 'id) MemoryForkTree \<Rightarrow> ('b, 'id) MemoryForkTreeItem \<Rightarrow> usize \<Rightarrow>
     ('id, MemoryForkTreeQueryError) Result option" where
  "ancestor_loop I t current_block ancestor_depth =
     (if item_depth current_block < ancestor_depth then Some (Err InvalidAncestorDepth)
      else if item_depth current_block = ancestor_depth
        then Some (Ok (block_id I (item_block current_block)))
      else case block_parent_id I (item_block current_block) of
        None \<Rightarrow> Some (Err InvalidAncestorDepth)
      | Some parent_id \<Rightarrow>
          (case HashMap_get (mft_blocks t)
                  (next_ancestor_id current_block ancestor_depth parent_id) of
             None \<Rightarrow> Some (Err UnknownBlock)
           | Some next_block \<Rightarrow> ancestor_loop I t next_block ancestor_depth))"

declare ancestor_loop.simps [code]

text \<open>The value of \<open>the\<close> below is the value the loop returns; \<open>ancestor_guard_returns\<close>
  shows that the loop returns wherever the guard lets it start.\<close>

definition MemoryForkTree_ancestor_id_at_depth ::
  "('b, 'id) Identified \<Rightarrow> ('b, 'id) MemoryForkTree \<Rightarrow> 'id \<Rightarrow> usize \<Rightarrow>
     ('id, MemoryForkTreeQueryError) Result" where
  "MemoryForkTree_ancestor_id_at_depth I t i ancestor_depth =
     and_then (ok_or UnknownBlock (HashMap_get (mft_blocks t) i)) (\<lambda>current_block.
       if item_depth current_block > ancestor_depth then Err InvalidAncestorDepth
       else the (ancestor_loop I t current_block ancestor_depth))"

definition MemoryForkTree_ForkTree ::
  "('b, 'id) Identified \<Rightarrow>
     (('b, 'id) MemoryForkTree, 'b, 'id, MemoryForkTreeQueryError) ForkTree" where
  "MemoryForkTree_ForkTree I =
     \<lparr>ft_block = MemoryForkTree_block,
      ft_block_depth = MemoryForkTree_block_depth,
      ft_ancestor_id_at_depth = MemoryForkTree_ancestor_id_at_depth I\<rparr>"

section \<open>Insertion\<close>

definition SKIP_DEPTHS :: "usize list" where
  "SKIP_DEPTHS =
     [4 ^ 1, 4 ^ 2, 4 ^ 3, 4 ^ 4, 4 ^ 5, 4 ^ 6, 4 ^ 7, 4 ^ 8,
      4 ^ 9, 4 ^ 10, 4 ^ 11, 4 ^ 12, 4 ^ 13, 4 ^ 14, 4 ^ 15, 4 ^ 16]"

definition skip_ancestor_depths :: "(usize list \<Rightarrow> usize list) \<Rightarrow> usize \<Rightarrow> usize list" where
  "skip_ancestor_depths unq depth =
     unq (map (\<lambda>skip_depth. depth - skip_depth)
       (filter (\<lambda>skip_depth. depth \<ge> skip_depth \<and> depth mod skip_depth = 0) SKIP_DEPTHS))"

text \<open>The \<open>for\<close> loop that fills the skip list, stopping at the first failed query.\<close>

fun collect_ancestors ::
  "(usize \<Rightarrow> ('id, 'qe) Result) \<Rightarrow> usize list \<Rightarrow> ((usize \<times> 'id) list, 'qe) Result" where
  "collect_ancestors query [] = Ok []"
| "collect_ancestors query (ancestor_depth # ds) =
     and_then (query ancestor_depth) (\<lambda>a.
     and_then (collect_ancestors query ds) (\<lambda>ancestors.
     Ok ((ancestor_depth, a) # ancestors)))"

text \<open>The first half of \<open>insert\<close>: record the child in its parent and compute the depth.\<close>

definition insert_link_parent ::
  "('b, 'id) Identified \<Rightarrow> ('b, 'id) MemoryForkTree \<Rightarrow> 'b \<Rightarrow>
     (('b, 'id) MemoryForkTree \<times> usize, MemoryForkTreeInsertError) Result" where
  "insert_link_parent I t b =
     (case block_parent_id I b of
        Some parent_id \<Rightarrow>
          (case HashMap_get (mft_blocks t) parent_id of
             None \<Rightarrow> Err UnknownParent
           | Some parent \<Rightarrow>
               Ok (t\<lparr>mft_blocks := HashMap_modify parent_id
                        (\<lambda>p. p\<lparr>item_children := item_children p @ [block_id I b]\<rparr>)
                        (mft_blocks t)\<rparr>,
                   item_depth parent + 1))
      | None \<Rightarrow> Ok (t, 0))"

definition insert_ancestors ::
  "(usize list \<Rightarrow> usize list) \<Rightarrow> ('b, 'id) Identified \<Rightarrow> ('b, 'id) MemoryForkTree \<Rightarrow> 'b \<Rightarrow> usize \<Rightarrow>
     ((usize \<times> 'id) list, MemoryForkTreeQueryError) Result" where
  "insert_ancestors unq I t b depth =
     (case block_parent_id I b of
        Some parent_id \<Rightarrow>
          collect_ancestors (MemoryForkTree_ancestor_id_at_depth I t parent_id)
            (skip_ancestor_depths unq depth)
      | None \<Rightarrow> Ok [])"

definition MemoryForkTree_insert ::
  "(usize list \<Rightarrow> usize list) \<Rightarrow> ('b, 'id) Identified \<Rightarrow> ('b, 'id) MemoryForkTree \<Rightarrow> 'b \<Rightarrow>
     (unit, MemoryForkTreeInsertError) Result \<times> ('b, 'id) MemoryForkTree" where
  "MemoryForkTree_insert unq I t b =
     (case insert_link_parent I t b of
        Err e \<Rightarrow> (Err e, t)
      | Ok (t1, depth) \<Rightarrow>
          (case insert_ancestors unq I t1 b depth of
             Err e \<Rightarrow> (Err (Query e), t1)
           | Ok ancestors \<Rightarrow>
               (Ok (), t1\<lparr>mft_depths := HashMap_entry depth [] (\<lambda>ids. ids @ [block_id I b])
                                       (mft_depths t1),
                          mft_blocks := HashMap_insert (block_id I b)
                            \<lparr>item_block = b, item_depth = depth, item_children = [],
                             item_ancestors = ancestors\<rparr> (mft_blocks t1)\<rparr>)))"

definition MemoryForkTree_ForkTreeMut ::
  "(usize list \<Rightarrow> usize list) \<Rightarrow> ('b, 'id) Identified \<Rightarrow>
     (('b, 'id) MemoryForkTree, 'b, 'id, MemoryForkTreeQueryError, MemoryForkTreeInsertError) ForkTreeMut" where
  "MemoryForkTree_ForkTreeMut unq I =
     \<lparr>ftm_fork_tree = MemoryForkTree_ForkTree I, ftm_insert = MemoryForkTree_insert unq I\<rparr>"

section \<open>Well-formedness\<close>

definition parent_of ::
  "('b, 'id) Identified \<Rightarrow> ('b, 'id) MemoryForkTree \<Rightarrow> 'id \<Rightarrow> 'id option" where
  "parent_of I t i =
     Option.bind (HashMap_get (mft_blocks t) i) (\<lambda>it. block_parent_id I (item_block it))"

definition item_ok ::
  "('b, 'id) Identified \<Rightarrow> ('b, 'id) MemoryForkTree \<Rightarrow> 'id \<Rightarrow> ('b, 'id) MemoryForkTreeItem \<Rightarrow> bool" where
  "item_ok I t i it \<longleftrightarrow>
     block_id I (item_block it) = i \<and>
     (case block_parent_id I (item_block it) of
        None \<Rightarrow> item_depth it = 0
      | Some p \<Rightarrow>
          (case HashMap_get (mft_blocks t) p of
             None \<Rightarrow> False
           | Some pit \<Rightarrow> unat (item_depth it) = Suc (unat (item_depth pit)))) \<and>
     (\<forall>(d, a) \<in> set (item_ancestors it).
        d < item_depth it \<and>
        climb (parent_of I t) (unat (item_depth it) - unat d) i = Some a)"

definition wf_tree :: "('b, 'id) Identified \<Rightarrow> ('b, 'id) MemoryForkTree \<Rightarrow> bool" where
  "wf_tree I t \<longleftrightarrow>
     HashMap_invar (mft_blocks t) \<and> (\<forall>(i, it) \<in> set (mft_blocks t). item_ok I t i it)"

definition index_ok :: "('b, 'id) Identified \<Rightarrow> ('b, 'id) MemoryForkTree \<Rightarrow> bool" where
  "index_ok I t \<longleftrightarrow>
     HashMap_invar (mft_depths t) \<and>
     (\<forall>(i, it) \<in> set (mft_blocks t).
        distinct (item_children it) \<and>
        (\<forall>c \<in> set (item_children it). parent_of I t c = Some i) \<and>
        (case block_parent_id I (item_block it) of
           None \<Rightarrow> True
         | Some p \<Rightarrow> (case HashMap_get (mft_blocks t) p of
             None \<Rightarrow> False | Some pit \<Rightarrow> i \<in> set (item_children pit))) \<and>
        (case HashMap_get (mft_depths t) (item_depth it) of
           None \<Rightarrow> False | Some ids \<Rightarrow> i \<in> set ids)) \<and>
     (\<forall>(d, ids) \<in> set (mft_depths t).
        distinct ids \<and> (\<forall>i \<in> set ids. MemoryForkTree_block_depth t i = Ok d))"

definition unique_spec :: "('a list \<Rightarrow> 'a list) \<Rightarrow> bool" where
  "unique_spec unq \<longleftrightarrow> (\<forall>xs. distinct (unq xs) \<and> set (unq xs) = set xs)"


section \<open>Queries return\<close>

lemmas ancestor_loop_unfold = ancestor_loop.simps

text \<open>The guard before the loop admits only blocks at or above the target depth, and on
  those the first iteration returns.\<close>

lemma ancestor_guard_returns:
  "\<not> item_depth it > d \<Longrightarrow>
   ancestor_loop I t it d =
     Some (if item_depth it = d then Ok (block_id I (item_block it)) else Err InvalidAncestorDepth)"
  by (subst ancestor_loop_unfold) auto

lemma ancestor_id_at_depth_eq:
  "MemoryForkTree_ancestor_id_at_depth I t i d =
     (case HashMap_get (mft_blocks t) i of
        None \<Rightarrow> Err UnknownBlock
      | Some it \<Rightarrow> if item_depth it = d then Ok (block_id I (item_block it))
                   else Err InvalidAncestorDepth)"
  by (auto simp: MemoryForkTree_ancestor_id_at_depth_def ancestor_guard_returns split: option.splits)

lemma block_depth_eq_Ok:
  "MemoryForkTree_block_depth t i = Ok d \<longleftrightarrow>
     (\<exists>it. HashMap_get (mft_blocks t) i = Some it \<and> item_depth it = d)"
  by (auto simp: MemoryForkTree_block_depth_def map_ok_eq_Ok)

lemma ForkTree_sel [simp]:
  "ft_block (MemoryForkTree_ForkTree I) = MemoryForkTree_block"
  "ft_block_depth (MemoryForkTree_ForkTree I) = MemoryForkTree_block_depth"
  "ft_ancestor_id_at_depth (MemoryForkTree_ForkTree I) = MemoryForkTree_ancestor_id_at_depth I"
  by (simp_all add: MemoryForkTree_ForkTree_def)

section \<open>Well-formed trees\<close>

lemma wf_tree_item:
  "wf_tree I t \<Longrightarrow> HashMap_get (mft_blocks t) i = Some it \<Longrightarrow> item_ok I t i it"
  by (auto simp: wf_tree_def dest: map_of_SomeD)

lemma wf_tree_iff:
  "HashMap_invar (mft_blocks t) \<Longrightarrow>
   wf_tree I t \<longleftrightarrow> (\<forall>i it. HashMap_get (mft_blocks t) i = Some it \<longrightarrow> item_ok I t i it)"
  by (auto simp: wf_tree_def dest: map_of_SomeD map_of_is_SomeI)

lemma wf_tree_new: "wf_tree I MemoryForkTree_new"
  by (simp add: wf_tree_def MemoryForkTree_new_def)

lemma wf_tree_root:
  assumes "wf_tree I t" "MemoryForkTree_block_depth t i = Ok d" "parent_of I t i = None"
  shows "d = 0"
  using assms wf_tree_item [OF assms(1)]
  by (fastforce simp: block_depth_eq_Ok parent_of_def item_ok_def)

lemma wf_tree_parent:
  assumes "wf_tree I t" "MemoryForkTree_block_depth t i = Ok d" "parent_of I t i = Some j"
  shows "\<exists>e. MemoryForkTree_block_depth t j = Ok e \<and> unat d = Suc (unat e)"
proof -
  obtain it where it: "HashMap_get (mft_blocks t) i = Some it" "item_depth it = d"
    "block_parent_id I (item_block it) = Some j"
    using assms(2,3) by (auto simp: block_depth_eq_Ok parent_of_def)
  then show ?thesis
    using wf_tree_item [OF assms(1) it(1)]
    by (auto simp: item_ok_def block_depth_eq_Ok split: option.splits)
qed

lemma wf_tree_ancestor:
  assumes "wf_tree I t" "MemoryForkTree_block_depth t i = Ok d"
  shows "MemoryForkTree_ancestor_id_at_depth I t i e =
    (if e = d then Ok i else Err InvalidAncestorDepth)"
  using assms wf_tree_item [OF assms(1)]
  by (auto simp: block_depth_eq_Ok ancestor_id_at_depth_eq item_ok_def)

interpretation mft: fork_tree "MemoryForkTree_ForkTree I" "wf_tree I" "parent_of I"
  for I :: "('b, 'id) Identified"
  by unfold_locales
    (auto dest: wf_tree_root wf_tree_parent simp: wf_tree_ancestor split: if_splits)

section \<open>The search loop\<close>

lemma iter_reduce_in:
  assumes "\<And>x y. f x y = x \<or> f x y = y" "iter_reduce f xs = Some z"
  shows "z \<in> set xs"
proof -
  have "foldl f x ys \<in> set (x # ys)" for x ys
  proof (induction ys arbitrary: x)
    case (Cons y ys)
    then show ?case using assms(1) [of x y] by force
  qed simp
  with assms(2) show ?thesis by (cases xs) auto
qed

lemma min_by_depth_choice: "min_by_depth x y = x \<or> min_by_depth x y = y"
  by (cases x; cases y) simp

text \<open>Every step of the search visits an ancestor that is strictly shallower than the current
  block and not above the target.\<close>

lemma next_ancestor:
  assumes wf: "wf_tree I t" and it: "HashMap_get (mft_blocks t) i = Some it"
    and d: "d < item_depth it"
    and p: "block_parent_id I (item_block it) = Some p"
  shows "\<exists>n nit. HashMap_get (mft_blocks t) (next_ancestor_id it d p) = Some nit \<and>
    d \<le> item_depth nit \<and> 0 < n \<and> unat (item_depth it) = unat (item_depth nit) + n \<and>
    climb (parent_of I t) n i = Some (next_ancestor_id it d p)"
proof -
  let ?a = "next_ancestor_id it d p"
  have ok: "item_ok I t i it" using wf it by (rule wf_tree_item)
  have dep: "MemoryForkTree_block_depth t i = Ok (item_depth it)"
    using it by (simp add: block_depth_eq_Ok)
  consider (parent) "?a = p" | (skip) e where "(e, ?a) \<in> set (item_ancestors it)" "d \<le> e"
    using iter_reduce_in [OF min_by_depth_choice]
    by (fastforce simp: next_ancestor_id_def split: option.splits prod.splits)
  then obtain n where n: "0 < n" "climb (parent_of I t) n i = Some ?a"
      "n \<le> unat (item_depth it) - unat d"
  proof cases
    case parent
    have "climb (parent_of I t) 1 i = Some ?a"
      using it p parent by (simp add: parent_of_def)
    with that [of 1] show ?thesis using d by (simp add: word_less_nat_alt)
  next
    case (skip e)
    with ok have "e < item_depth it" "climb (parent_of I t) (unat (item_depth it) - unat e) i = Some ?a"
      by (auto simp: item_ok_def)
    with \<open>d \<le> e\<close> show ?thesis
      by (intro that [of "unat (item_depth it) - unat e"])
        (simp_all add: word_less_nat_alt word_le_nat_alt)
  qed
  from mft.climb_depth [OF wf, simplified, OF dep n(2)]
  obtain e where "MemoryForkTree_block_depth t ?a = Ok e" "unat (item_depth it) = unat e + n"
    by blast
  moreover have "unat d < unat (item_depth it)"
    using d by (simp add: word_less_nat_alt)
  ultimately show ?thesis
    using n by (auto simp: block_depth_eq_Ok word_le_nat_alt)
qed

text \<open>On a well-formed tree the loop terminates with the ancestor at the requested depth.\<close>

lemma ancestor_loop_correct:
  assumes wf: "wf_tree I t"
  shows "HashMap_get (mft_blocks t) i = Some it \<Longrightarrow> d \<le> item_depth it \<Longrightarrow>
    \<exists>a. ancestor_loop I t it d = Some (Ok a) \<and>
        climb (parent_of I t) (unat (item_depth it) - unat d) i = Some a"
proof (induction "unat (item_depth it)" arbitrary: i it rule: less_induct)
  case less
  have ok: "item_ok I t i it" using wf less.prems(1) by (rule wf_tree_item)
  show ?case
  proof (cases "item_depth it = d")
    case True
    then show ?thesis using ok by (subst ancestor_loop_unfold) (simp add: item_ok_def)
  next
    case False
    then have lt: "d < item_depth it" using less.prems(2) by simp
    then have "item_depth it \<noteq> 0" by auto
    then obtain p where p: "block_parent_id I (item_block it) = Some p"
      using ok by (auto simp: item_ok_def split: option.splits)
    from next_ancestor [OF wf less.prems(1) lt p] obtain n nit where
      nit: "HashMap_get (mft_blocks t) (next_ancestor_id it d p) = Some nit"
        "d \<le> item_depth nit" "0 < n" "unat (item_depth it) = unat (item_depth nit) + n"
        "climb (parent_of I t) n i = Some (next_ancestor_id it d p)"
      by blast
    from less.hyps [OF _ nit(1,2)] nit(3,4) obtain a where
      a: "ancestor_loop I t nit d = Some (Ok a)"
        "climb (parent_of I t) (unat (item_depth nit) - unat d) (next_ancestor_id it d p) = Some a"
      by auto
    have "unat (item_depth it) - unat d = n + (unat (item_depth nit) - unat d)"
      using nit(2,4) by (simp add: word_le_nat_alt)
    then have "climb (parent_of I t) (unat (item_depth it) - unat d) i = Some a"
      using nit(5) a(2) by (simp add: climb_add)
    moreover have "ancestor_loop I t it d = Some (Ok a)"
      using False lt p nit(1) a(1) by (subst ancestor_loop_unfold) auto
    ultimately show ?thesis by blast
  qed
qed


text \<open>A fork tree that answers for every ancestor, to show that \<open>complete_fork_tree\<close> can be satisfied.
  It is no part of the program: \<open>ancestor_search\<close> is \<open>ancestor_id_at_depth\<close> with the test in front of
  the loop left out.\<close>

definition ancestor_search ::
  "('b, 'id) Identified \<Rightarrow> ('b, 'id) MemoryForkTree \<Rightarrow> 'id \<Rightarrow> usize \<Rightarrow>
     ('id, MemoryForkTreeQueryError) Result" where
  "ancestor_search I t i ancestor_depth =
     and_then (ok_or UnknownBlock (HashMap_get (mft_blocks t) i)) (\<lambda>current_block.
       the (ancestor_loop I t current_block ancestor_depth))"

definition search_ForkTree ::
  "('b, 'id) Identified \<Rightarrow>
     (('b, 'id) MemoryForkTree, 'b, 'id, MemoryForkTreeQueryError) ForkTree" where
  "search_ForkTree I = (MemoryForkTree_ForkTree I)\<lparr>ft_ancestor_id_at_depth := ancestor_search I\<rparr>"

lemma search_sel [simp]:
  "ft_block_depth (search_ForkTree I) = MemoryForkTree_block_depth"
  "ft_ancestor_id_at_depth (search_ForkTree I) = ancestor_search I"
  by (simp_all add: search_ForkTree_def)

lemma ancestor_search_correct:
  assumes "wf_tree I t" "MemoryForkTree_block_depth t i = Ok d"
  shows "if e \<le> d
    then \<exists>a. ancestor_search I t i e = Ok a \<and> climb (parent_of I t) (unat d - unat e) i = Some a
    else ancestor_search I t i e = Err InvalidAncestorDepth"
proof -
  obtain it where it: "HashMap_get (mft_blocks t) i = Some it" "item_depth it = d"
    using assms(2) by (auto simp: block_depth_eq_Ok)
  then show ?thesis
    using ancestor_loop_correct [OF assms(1) it(1), of e] ancestor_guard_returns [of e it I t]
    by (auto simp: ancestor_search_def)
qed

lemma ancestor_search_Ok:
  assumes "wf_tree I t" "MemoryForkTree_block_depth t i = Ok d" "ancestor_search I t i e = Ok a"
  shows "e \<le> d \<and> climb (parent_of I t) (unat d - unat e) i = Some a"
  using ancestor_search_correct [OF assms(1,2), of e] assms(3) by (auto split: if_splits)

lemma ancestor_search_own:
  assumes "wf_tree I t" "MemoryForkTree_block_depth t i = Ok d"
  shows "ancestor_search I t i d = Ok i"
  using ancestor_search_correct [OF assms, of d] by simp

interpretation search: complete_fork_tree "search_ForkTree I" "wf_tree I" "parent_of I"
  for I :: "('b, 'id) Identified"
proof unfold_locales
  show "\<exists>a. ft_ancestor_id_at_depth (search_ForkTree I) t i e = Ok a"
    if "wf_tree I t" "ft_block_depth (search_ForkTree I) t i = Ok d" "e \<le> d" for t i d e
    using ancestor_search_correct [of I t i d e] that by auto
qed (auto dest: wf_tree_root wf_tree_parent ancestor_search_Ok simp: ancestor_search_own)

end
