(* ===== verification/MemoryForkTreeInsert.thy ===== *)
theory MemoryForkTreeInsert
  imports MemoryForkTree
begin

text \<open>
  The effect of \<open>MemoryForkTree_insert\<close> (\<open>blockchain/src/memory/chain.rs\<close>): when a skip
  list is due, what each branch of the insertion returns and leaves behind, that it keeps
  \<open>wf_tree\<close> and \<open>index_ok\<close>, and the trees reachable from an empty one.
\<close>

section \<open>Skip lists\<close>

lemma set_skip_ancestor_depths:
  "unique_spec unq \<Longrightarrow> set (skip_ancestor_depths unq depth) =
     (\<lambda>s. depth - s) ` {s \<in> set SKIP_DEPTHS. unat s \<le> unat depth \<and> unat s dvd unat depth}"
  by (simp add: skip_ancestor_depths_def unique_spec_def word_le_nat_alt word_mod_eq_0_iff)

lemma SKIP_DEPTHS_nat: "map unat SKIP_DEPTHS = map (\<lambda>k. 4 ^ k) [1..<17]"
  by (simp add: SKIP_DEPTHS_def upt_rec)

lemma unat_SKIP_DEPTHS: "s \<in> set SKIP_DEPTHS \<Longrightarrow> \<exists>k \<in> {1..16}. unat s = 4 ^ k"
proof -
  assume "s \<in> set SKIP_DEPTHS"
  then have "unat s \<in> set (map (\<lambda>k. 4 ^ k) [1..<17])"
    unfolding SKIP_DEPTHS_nat [symmetric] by simp
  then show ?thesis by auto
qed

lemma SKIP_DEPTHS_ge: "s \<in> set SKIP_DEPTHS \<Longrightarrow> 4 \<le> unat s \<and> 4 dvd unat s"
proof -
  assume "s \<in> set SKIP_DEPTHS"
  then obtain k where "k \<in> {1..16}" "unat s = 4 ^ k" using unat_SKIP_DEPTHS by blast
  then show ?thesis by (cases k) auto
qed

text \<open>A skip list is due exactly at the positive multiples of four.\<close>

lemma skip_depths_due:
  assumes "unique_spec unq"
  shows "skip_ancestor_depths unq depth \<noteq> [] \<longleftrightarrow> 0 < unat depth \<and> 4 dvd unat depth"
proof -
  have four: "4 \<in> set SKIP_DEPTHS" by (simp add: SKIP_DEPTHS_def)
  have "skip_ancestor_depths unq depth \<noteq> [] \<longleftrightarrow>
      (\<exists>s \<in> set SKIP_DEPTHS. unat s \<le> unat depth \<and> unat s dvd unat depth)"
    using set_skip_ancestor_depths [OF assms, of depth] by (auto simp flip: set_empty)
  also have "\<dots> \<longleftrightarrow> 0 < unat depth \<and> 4 dvd unat depth"
  proof
    assume "\<exists>s \<in> set SKIP_DEPTHS. unat s \<le> unat depth \<and> unat s dvd unat depth"
    then obtain s where "s \<in> set SKIP_DEPTHS" "unat s \<le> unat depth" "unat s dvd unat depth"
      by blast
    with SKIP_DEPTHS_ge [of s] show "0 < unat depth \<and> 4 dvd unat depth"
      using dvd_trans [of 4 "unat s" "unat depth"] by linarith
  next
    assume "0 < unat depth \<and> 4 dvd unat depth"
    with four show "\<exists>s \<in> set SKIP_DEPTHS. unat s \<le> unat depth \<and> unat s dvd unat depth"
      by (intro bexI [of _ 4]) (simp_all add: dvd_imp_le)
  qed
  finally show ?thesis .
qed

lemma skip_depths_below:
  assumes "unique_spec unq" "d \<in> set (skip_ancestor_depths unq depth)"
  shows "unat d + 4 \<le> unat depth"
proof -
  obtain s where "s \<in> set SKIP_DEPTHS" "s \<le> depth" "d = depth - s"
    using assms(2) unfolding set_skip_ancestor_depths [OF assms(1)] word_le_nat_alt by blast
  then show ?thesis using SKIP_DEPTHS_ge by (fastforce simp: unat_diff_of_le word_le_nat_alt)
qed

lemma collect_ancestors_Ok:
  "collect_ancestors query ds = Ok as \<Longrightarrow>
   map fst as = ds \<and> (\<forall>(d, a) \<in> set as. query d = Ok a)"
  by (induction ds arbitrary: as) (auto simp: and_then_eq_Ok)

lemma collect_ancestors_Err:
  "ds \<noteq> [] \<Longrightarrow> \<forall>d \<in> set ds. query d = Err e \<Longrightarrow> collect_ancestors query ds = Err e"
  by (cases ds) auto


section \<open>Insertion keeps the tree well formed\<close>

text \<open>Pushing onto a child list changes neither depths, nor parents, nor skip lists.\<close>

definition push_child ::
  "'id \<Rightarrow> 'id \<Rightarrow> ('b, 'id) MemoryForkTree \<Rightarrow> ('b, 'id) MemoryForkTree" where
  "push_child p i t =
     t\<lparr>mft_blocks := HashMap_modify p
         (\<lambda>it. it\<lparr>item_children := item_children it @ [i]\<rparr>) (mft_blocks t)\<rparr>"

lemma get_push_child:
  "HashMap_get (mft_blocks (push_child p i t)) j =
     (if j = p then map_option (\<lambda>it. it\<lparr>item_children := item_children it @ [i]\<rparr>)
        (HashMap_get (mft_blocks t) p) else HashMap_get (mft_blocks t) j)"
  by (simp add: push_child_def map_simps)

lemma parent_of_push_child [simp]: "parent_of I (push_child p i t) = parent_of I t"
proof (rule ext)
  show "parent_of I (push_child p i t) j = parent_of I t j" for j
    by (cases "HashMap_get (mft_blocks t) j") (auto simp: parent_of_def get_push_child)
qed

lemma block_depth_push_child [simp]:
  "MemoryForkTree_block_depth (push_child p i t) j = MemoryForkTree_block_depth t j"
  by (cases "HashMap_get (mft_blocks t) j")
    (auto simp: MemoryForkTree_block_depth_def get_push_child)

lemma ancestor_push_child [simp]:
  "MemoryForkTree_ancestor_id_at_depth I (push_child p i t) j d =
   MemoryForkTree_ancestor_id_at_depth I t j d"
  by (auto simp: ancestor_id_at_depth_eq get_push_child split: option.splits)

lemma invar_push_child:
  "HashMap_invar (mft_blocks t) \<Longrightarrow> HashMap_invar (mft_blocks (push_child p i t))"
  by (simp add: push_child_def distinct_map_entry)

lemma item_ok_children [simp]: "item_ok I t i (it\<lparr>item_children := cs\<rparr>) = item_ok I t i it"
  by (simp add: item_ok_def split: option.split)

lemma item_ok_push_child: "item_ok I (push_child p c t) i it = item_ok I t i it"
  by (auto simp: item_ok_def get_push_child split: option.splits)

lemma wf_push_child: "wf_tree I t \<Longrightarrow> wf_tree I (push_child p i t)"
  by (auto simp: wf_tree_iff invar_push_child get_push_child item_ok_push_child
      wf_tree_item wf_tree_def [of I t, THEN iffD1, THEN conjunct1] split: if_splits)

text \<open>Adding a fresh block leaves every known block's ancestry as it was.\<close>

definition add_block ::
  "'id \<Rightarrow> ('b, 'id) MemoryForkTreeItem \<Rightarrow> ('b, 'id) MemoryForkTree \<Rightarrow> ('b, 'id) MemoryForkTree" where
  "add_block i it t =
     t\<lparr>mft_depths := HashMap_entry (item_depth it) [] (\<lambda>ids. ids @ [i]) (mft_depths t),
       mft_blocks := HashMap_insert i it (mft_blocks t)\<rparr>"

lemma get_add_block:
  "HashMap_get (mft_blocks (add_block i it t)) j =
     (if j = i then Some it else HashMap_get (mft_blocks t) j)"
  by (simp add: add_block_def map_simps)

lemma invar_add_block:
  "HashMap_invar (mft_blocks t) \<Longrightarrow> HashMap_invar (mft_blocks (add_block i it t))"
  by (simp add: add_block_def distinct_update)

lemma parent_of_add_block:
  "j \<noteq> i \<Longrightarrow> parent_of I (add_block i it t) j = parent_of I t j"
  "parent_of I (add_block i it t) i = block_parent_id I (item_block it)"
  by (simp_all add: parent_of_def get_add_block)

lemma wf_parent_known:
  assumes "wf_tree I t" "parent_of I t j = Some k"
  shows "HashMap_get (mft_blocks t) k \<noteq> None"
proof -
  obtain jt where jt: "HashMap_get (mft_blocks t) j = Some jt"
    "block_parent_id I (item_block jt) = Some k"
    using assms(2) by (auto simp: parent_of_def bind_eq_Some_conv)
  then show ?thesis
    using wf_tree_item [OF assms(1) jt(1)]
    by (auto simp: item_ok_def split: option.splits)
qed

lemma climb_add_block:
  assumes "wf_tree I t" "HashMap_get (mft_blocks t) i = None"
    and "HashMap_get (mft_blocks t) j \<noteq> None"
  shows "climb (parent_of I (add_block i it t)) n j = climb (parent_of I t) n j"
proof (rule sym, rule climb_cong [where P = "\<lambda>j. HashMap_get (mft_blocks t) j \<noteq> None"])
  fix j
  assume "HashMap_get (mft_blocks t) j \<noteq> None"
  with assms(2) show "parent_of I t j = parent_of I (add_block i it t) j"
    by (metis parent_of_add_block(1))
qed (use wf_parent_known [OF assms(1)] assms(3) in auto)

lemma item_ok_add_block:
  assumes "wf_tree I t" "HashMap_get (mft_blocks t) i = None"
    and "HashMap_get (mft_blocks t) j = Some jt"
  shows "item_ok I (add_block i it t) j jt"
  using wf_tree_item [OF assms(1,3)] climb_add_block [OF assms(1,2), of j it] assms(2,3)
  by (auto simp: item_ok_def get_add_block split: option.splits)

lemma wf_add_block:
  assumes "wf_tree I t" "HashMap_get (mft_blocks t) i = None"
    and "item_ok I (add_block i it t) i it"
  shows "wf_tree I (add_block i it t)"
proof -
  have "HashMap_invar (mft_blocks t)" using assms(1) by (simp add: wf_tree_def)
  then show ?thesis
    using assms item_ok_add_block [OF assms(1,2)]
    by (simp add: wf_tree_iff invar_add_block get_add_block)
qed

text \<open>The three outcomes of an insertion.\<close>

definition new_item :: "'b \<Rightarrow> usize \<Rightarrow> (usize \<times> 'id) list \<Rightarrow> ('b, 'id) MemoryForkTreeItem" where
  "new_item b d as = \<lparr>item_block = b, item_depth = d, item_children = [], item_ancestors = as\<rparr>"

lemma new_item_sel [simp]:
  "item_block (new_item b d as) = b" "item_depth (new_item b d as) = d"
  "item_children (new_item b d as) = []" "item_ancestors (new_item b d as) = as"
  by (simp_all add: new_item_def)

lemma insert_genesis_eq:
  "block_parent_id I b = None \<Longrightarrow>
   MemoryForkTree_insert unq I t b = (Ok (), add_block (block_id I b) (new_item b 0 []) t)"
  by (simp add: MemoryForkTree_insert_def insert_link_parent_def insert_ancestors_def
      add_block_def new_item_def)

lemma insert_unknown_parent_eq:
  "block_parent_id I b = Some p \<Longrightarrow> HashMap_get (mft_blocks t) p = None \<Longrightarrow>
   MemoryForkTree_insert unq I t b = (Err UnknownParent, t)"
  by (simp add: MemoryForkTree_insert_def insert_link_parent_def)

lemma insert_known_parent_eq:
  assumes "block_parent_id I b = Some p" "HashMap_get (mft_blocks t) p = Some pit"
  shows "MemoryForkTree_insert unq I t b =
    (let t1 = push_child p (block_id I b) t; d = item_depth pit + 1 in
     case collect_ancestors (MemoryForkTree_ancestor_id_at_depth I t p)
            (skip_ancestor_depths unq d) of
       Err e \<Rightarrow> (Err (Query e), t1)
     | Ok as \<Rightarrow> (Ok (), add_block (block_id I b) (new_item b d as) t1))"
proof -
  have "MemoryForkTree_ancestor_id_at_depth I (push_child p (block_id I b) t) p =
      MemoryForkTree_ancestor_id_at_depth I t p" by (rule ext) simp
  moreover have "insert_link_parent I t b = Ok (push_child p (block_id I b) t, item_depth pit + 1)"
    using assms by (simp add: insert_link_parent_def push_child_def)
  ultimately show ?thesis
    using assms(1) by (simp add: MemoryForkTree_insert_def insert_ancestors_def Let_def
        add_block_def new_item_def cong: Result.case_cong)
qed

text \<open>The depth of the new block does not overflow.\<close>

definition depth_room :: "('b, 'id) Identified \<Rightarrow> ('b, 'id) MemoryForkTree \<Rightarrow> 'b \<Rightarrow> bool" where
  "depth_room I t b \<longleftrightarrow>
     (case Option.bind (block_parent_id I b) (HashMap_get (mft_blocks t)) of
        None \<Rightarrow> True
      | Some parent \<Rightarrow> item_depth parent < - 1)"

lemma insert_ancestors_sound:
  assumes "wf_tree I t" "HashMap_get (mft_blocks t) p = Some pit"
    and "collect_ancestors (MemoryForkTree_ancestor_id_at_depth I t p) ds = Ok as"
    and "(d, a) \<in> set as"
  shows "d \<le> item_depth pit \<and> climb (parent_of I t) (unat (item_depth pit) - unat d) p = Some a"
proof -
  have "MemoryForkTree_block_depth t p = Ok (item_depth pit)"
    using assms(2) by (simp add: block_depth_eq_Ok)
  moreover have "MemoryForkTree_ancestor_id_at_depth I t p d = Ok a"
    using collect_ancestors_Ok [OF assms(3)] assms(4) by auto
  ultimately show ?thesis using mft.ancestor_sound [OF assms(1)] by simp
qed

lemma item_ok_new_child:
  assumes wf: "wf_tree I t" and fresh: "HashMap_get (mft_blocks t) (block_id I b) = None"
    and p: "block_parent_id I b = Some p" "HashMap_get (mft_blocks t) p = Some pit"
    and room: "item_depth pit < - 1"
    and as: "collect_ancestors (MemoryForkTree_ancestor_id_at_depth I t p) ds = Ok as"
  shows "item_ok I (add_block (block_id I b) (new_item b (item_depth pit + 1) as) t)
    (block_id I b) (new_item b (item_depth pit + 1) as)"
    (is "item_ok I ?t ?i ?it")
proof -
  have suc: "unat (item_depth pit + 1) = Suc (unat (item_depth pit))"
    using room by (rule unat_Suc_of_less)
  have climb: "climb (parent_of I ?t) (Suc n) ?i = climb (parent_of I t) n p" for n
    using climb_add_block [OF wf fresh, of p ?it n] p by (simp add: parent_of_add_block)
  have "d < item_depth pit + 1 \<and>
      climb (parent_of I ?t) (unat (item_depth pit + 1) - unat d) ?i = Some a"
    if "(d, a) \<in> set as" for d a
    using insert_ancestors_sound [OF wf p(2) as that] climb
    by (auto simp: suc word_less_nat_alt word_le_nat_alt Suc_diff_le)
  moreover have "?i \<noteq> p" using fresh p(2) by auto
  ultimately show ?thesis
    using p suc by (auto simp: item_ok_def get_add_block)
qed

lemma push_child_collect:
  "MemoryForkTree_ancestor_id_at_depth I (push_child p i t) = MemoryForkTree_ancestor_id_at_depth I t"
  by (intro ext) simp

text \<open>Every outcome of an insertion of a fresh block keeps the tree well formed.\<close>

lemma wf_insert:
  assumes wf: "wf_tree I t" and fresh: "HashMap_get (mft_blocks t) (block_id I b) = None"
    and room: "depth_room I t b"
  shows "wf_tree I (snd (MemoryForkTree_insert unq I t b))"
proof (cases "block_parent_id I b")
  case None
  then have "item_ok I (add_block (block_id I b) (new_item b 0 []) t) (block_id I b) (new_item b 0 [])"
    by (simp add: item_ok_def)
  with wf fresh None show ?thesis by (simp add: insert_genesis_eq wf_add_block)
next
  case (Some p)
  show ?thesis
  proof (cases "HashMap_get (mft_blocks t) p")
    case None
    with wf Some show ?thesis by (simp add: insert_unknown_parent_eq)
  next
    case known: (Some pit)
    let ?t1 = "push_child p (block_id I b) t"
    let ?pit1 = "pit\<lparr>item_children := item_children pit @ [block_id I b]\<rparr>"
    have "wf_tree I ?t1" using wf by (rule wf_push_child)
    moreover have fresh1: "HashMap_get (mft_blocks ?t1) (block_id I b) = None"
      using fresh known by (auto simp: get_push_child)
    moreover have "HashMap_get (mft_blocks ?t1) p = Some ?pit1"
      using known by (simp add: get_push_child)
    moreover have "item_depth ?pit1 < - 1"
      using room Some known by (simp add: depth_room_def)
    ultimately have "wf_tree I (add_block (block_id I b) (new_item b (item_depth pit + 1) as) ?t1)"
      if "collect_ancestors (MemoryForkTree_ancestor_id_at_depth I t p)
            (skip_ancestor_depths unq (item_depth pit + 1)) = Ok as" for as
      using item_ok_new_child [of I ?t1 b p ?pit1] that Some
      by (intro wf_add_block) (simp_all add: push_child_collect)
    with \<open>wf_tree I ?t1\<close> Some known show ?thesis
      by (auto simp: insert_known_parent_eq Let_def split: Result.splits)
  qed
qed

text \<open>What an insertion answers: the query for the skip list always asks for a block above the
  parent, which the guard of \<open>ancestor_id_at_depth\<close> refuses.\<close>

lemma insert_skip_fails:
  assumes wf: "wf_tree I t" and u: "unique_spec unq"
    and p: "HashMap_get (mft_blocks t) p = Some pit" and room: "item_depth pit < - 1"
  shows "collect_ancestors (MemoryForkTree_ancestor_id_at_depth I t p)
      (skip_ancestor_depths unq (item_depth pit + 1)) =
    (if 4 dvd Suc (unat (item_depth pit)) then Err InvalidAncestorDepth else Ok [])"
proof -
  let ?ds = "skip_ancestor_depths unq (item_depth pit + 1)"
  have suc: "unat (item_depth pit + 1) = Suc (unat (item_depth pit))"
    using room by (rule unat_Suc_of_less)
  have "MemoryForkTree_block_depth t p = Ok (item_depth pit)"
    using p by (simp add: block_depth_eq_Ok)
  moreover have "d \<noteq> item_depth pit" if "d \<in> set ?ds" for d
    using skip_depths_below [OF u that] suc by auto
  ultimately have "\<forall>d \<in> set ?ds. MemoryForkTree_ancestor_id_at_depth I t p d = Err InvalidAncestorDepth"
    using wf by (simp add: wf_tree_ancestor)
  then show ?thesis
    using skip_depths_due [OF u, of "item_depth pit + 1"] collect_ancestors_Err suc
    by (cases "?ds = []") auto
qed

definition insert_outcome ::
  "('b, 'id) Identified \<Rightarrow> ('b, 'id) MemoryForkTree \<Rightarrow> 'b \<Rightarrow>
     (unit, MemoryForkTreeInsertError) Result \<times> ('b, 'id) MemoryForkTree" where
  "insert_outcome I t b =
     (case block_parent_id I b of
        None \<Rightarrow> (Ok (), add_block (block_id I b) (new_item b 0 []) t)
      | Some p \<Rightarrow>
          (case HashMap_get (mft_blocks t) p of
             None \<Rightarrow> (Err UnknownParent, t)
           | Some pit \<Rightarrow>
               if 4 dvd Suc (unat (item_depth pit))
               then (Err (Query InvalidAncestorDepth), push_child p (block_id I b) t)
               else (Ok (), add_block (block_id I b) (new_item b (item_depth pit + 1) [])
                              (push_child p (block_id I b) t))))"

lemma insert_eq_outcome:
  assumes "wf_tree I t" "unique_spec unq" "depth_room I t b"
  shows "MemoryForkTree_insert unq I t b = insert_outcome I t b"
  using assms
  by (auto simp: insert_outcome_def insert_genesis_eq insert_unknown_parent_eq
      insert_known_parent_eq insert_skip_fails depth_room_def split: option.splits)

section \<open>Child lists and the depth index\<close>

lemma index_ok_iff:
  assumes "HashMap_invar (mft_blocks t)"
  shows "index_ok I t \<longleftrightarrow> HashMap_invar (mft_depths t) \<and>
    (\<forall>i it. HashMap_get (mft_blocks t) i = Some it \<longrightarrow>
       distinct (item_children it) \<and> (\<forall>c \<in> set (item_children it). parent_of I t c = Some i) \<and>
       (\<forall>p. block_parent_id I (item_block it) = Some p \<longrightarrow>
          (\<exists>pit. HashMap_get (mft_blocks t) p = Some pit \<and> i \<in> set (item_children pit))) \<and>
       (\<exists>ids. HashMap_get (mft_depths t) (item_depth it) = Some ids \<and> i \<in> set ids)) \<and>
    (\<forall>d ids. HashMap_get (mft_depths t) d = Some ids \<longrightarrow>
       distinct ids \<and> (\<forall>i \<in> set ids. MemoryForkTree_block_depth t i = Ok d))"
proof -
  have 3: "(case x of None \<Rightarrow> False | Some y \<Rightarrow> R y) \<longleftrightarrow> (\<exists>y. x = Some y \<and> R y)" for x :: "'x option" and R
    by (cases x) auto
  have 4: "(case x of None \<Rightarrow> True | Some y \<Rightarrow> R y) \<longleftrightarrow> (\<forall>y. x = Some y \<longrightarrow> R y)" for x :: "'x option" and R
    by (cases x) auto
  show ?thesis
    unfolding index_ok_def HashMap_ball [OF assms] 3 4
    by (rule conj_cong [OF refl]) (simp only: HashMap_ball)
qed

lemma depths_add_block:
  "HashMap_invar (mft_depths t) \<Longrightarrow> HashMap_get (mft_depths (add_block i it t)) d =
     (if d = item_depth it
      then Some ((case HashMap_get (mft_depths t) d of None \<Rightarrow> [] | Some ids \<Rightarrow> ids) @ [i])
      else HashMap_get (mft_depths t) d)"
  by (simp add: add_block_def hm.get_entry_or)

lemma depths_push_child [simp]: "mft_depths (push_child p i t) = mft_depths t"
  by (simp add: push_child_def)

text \<open>A fresh block linked into its parent (if it has one) keeps both indexes exact.\<close>

definition link_block ::
  "('b, 'id) Identified \<Rightarrow> 'b \<Rightarrow> ('b, 'id) MemoryForkTreeItem \<Rightarrow> ('b, 'id) MemoryForkTree \<Rightarrow>
     ('b, 'id) MemoryForkTree" where
  "link_block I b it t =
     add_block (block_id I b) it
       (case block_parent_id I b of None \<Rightarrow> t | Some p \<Rightarrow> push_child p (block_id I b) t)"

lemma get_link_block:
  "HashMap_get (mft_blocks (link_block I b it t)) j =
     (if j = block_id I b then Some it
      else map_option (\<lambda>x. if block_parent_id I b = Some j
                           then x\<lparr>item_children := item_children x @ [block_id I b]\<rparr> else x)
             (HashMap_get (mft_blocks t) j))"
  by (cases "HashMap_get (mft_blocks t) j")
    (auto simp: link_block_def get_add_block get_push_child split: option.splits)

lemma parent_of_link_block:
  "item_block it = b \<Longrightarrow> parent_of I (link_block I b it t) j =
     (if j = block_id I b then block_parent_id I b else parent_of I t j)"
  by (auto simp: link_block_def parent_of_add_block split: option.splits)

lemma block_depth_add_block:
  "MemoryForkTree_block_depth (add_block i it t) j =
     (if j = i then Ok (item_depth it) else MemoryForkTree_block_depth t j)"
  by (simp add: MemoryForkTree_block_depth_def get_add_block)

lemma block_depth_link_block:
  "MemoryForkTree_block_depth (link_block I b it t) j =
     (if j = block_id I b then Ok (item_depth it) else MemoryForkTree_block_depth t j)"
  by (simp add: link_block_def block_depth_add_block split: option.splits)

lemma depths_link_block:
  "HashMap_invar (mft_depths t) \<Longrightarrow> HashMap_get (mft_depths (link_block I b it t)) d =
     (if d = item_depth it
      then Some ((case HashMap_get (mft_depths t) d of None \<Rightarrow> [] | Some ids \<Rightarrow> ids) @ [block_id I b])
      else HashMap_get (mft_depths t) d)"
  by (cases "block_parent_id I b") (simp_all add: link_block_def depths_add_block)

lemma invar_link_block:
  "HashMap_invar (mft_blocks t) \<Longrightarrow> HashMap_invar (mft_blocks (link_block I b it t))"
  "HashMap_invar (mft_depths t) \<Longrightarrow> HashMap_invar (mft_depths (link_block I b it t))"
  by (auto simp: link_block_def invar_add_block invar_push_child split: option.splits)
    (auto simp: add_block_def push_child_def hm.invar_entry_or split: option.splits)

lemma depth_index_link_block:
  assumes invd: "HashMap_invar (mft_depths t)"
    and old: "\<And>d ids. HashMap_get (mft_depths t) d = Some ids \<Longrightarrow>
      distinct ids \<and> (\<forall>i \<in> set ids. MemoryForkTree_block_depth t i = Ok d)"
    and fresh: "HashMap_get (mft_blocks t) (block_id I b) = None"
    and ids: "HashMap_get (mft_depths (link_block I b it t)) d = Some ids"
  shows "distinct ids \<and> (\<forall>i \<in> set ids. MemoryForkTree_block_depth (link_block I b it t) i = Ok d)"
proof -
  define before where "before = (case HashMap_get (mft_depths t) d of None \<Rightarrow> [] | Some ids \<Rightarrow> ids)"
  have "distinct before \<and> (\<forall>i \<in> set before. MemoryForkTree_block_depth t i = Ok d)"
    using old [of d] by (cases "HashMap_get (mft_depths t) d") (simp_all add: before_def)
  moreover from this have "block_id I b \<notin> set before" using fresh by (auto simp: block_depth_eq_Ok)
  moreover have "ids = before @ (if d = item_depth it then [block_id I b] else [])"
    using ids invd by (auto simp: depths_link_block before_def split: if_splits)
  ultimately show ?thesis by (auto simp: block_depth_link_block)
qed

lemma index_link_block:
  assumes inv: "HashMap_invar (mft_blocks t)" and ix: "index_ok I t"
    and fresh: "HashMap_get (mft_blocks t) (block_id I b) = None"
    and it: "item_block it = b" "item_children it = []"
    and p: "\<And>p. block_parent_id I b = Some p \<Longrightarrow> HashMap_get (mft_blocks t) p \<noteq> None"
  shows "index_ok I (link_block I b it t)"
proof -
  let ?i = "block_id I b" and ?t = "link_block I b it t"
  note ix' = ix [unfolded index_ok_iff [OF inv]]
  from ix' have invd: "HashMap_invar (mft_depths t)" by blast
  have nochild: "?i \<notin> set (item_children x)" if "HashMap_get (mft_blocks t) j = Some x" for j x
    using ix' that fresh by (fastforce simp: parent_of_def)
  have blocks: "distinct (item_children x) \<and> (\<forall>c \<in> set (item_children x). parent_of I ?t c = Some j) \<and>
      (\<forall>p. block_parent_id I (item_block x) = Some p \<longrightarrow>
         (\<exists>pit. HashMap_get (mft_blocks ?t) p = Some pit \<and> j \<in> set (item_children pit))) \<and>
      (\<exists>ids. HashMap_get (mft_depths ?t) (item_depth x) = Some ids \<and> j \<in> set ids)"
    if x: "HashMap_get (mft_blocks ?t) j = Some x" for j x
  proof (cases "j = ?i")
    case True
    with x have "x = it" by (simp add: get_link_block)
    with True p invd fresh show ?thesis
      by (fastforce simp: it get_link_block depths_link_block)
  next
    case False
    with x obtain y where y: "HashMap_get (mft_blocks t) j = Some y"
      "x = (if block_parent_id I b = Some j
            then y\<lparr>item_children := item_children y @ [?i]\<rparr> else y)"
      by (auto simp: get_link_block)
    from y(1) ix' have old: "distinct (item_children y)"
      "\<forall>c \<in> set (item_children y). parent_of I t c = Some j"
      "\<exists>ids. HashMap_get (mft_depths t) (item_depth y) = Some ids \<and> j \<in> set ids"
      by blast+
    have "\<exists>pit. HashMap_get (mft_blocks ?t) q = Some pit \<and> j \<in> set (item_children pit)"
      if q: "block_parent_id I (item_block y) = Some q" for q
    proof -
      obtain pit where "HashMap_get (mft_blocks t) q = Some pit" "j \<in> set (item_children pit)"
        using ix' y(1) q by blast
      then show ?thesis using fresh by (auto simp: get_link_block)
    qed
    with old y nochild [OF y(1)] invd show ?thesis
      by (auto simp: parent_of_link_block it depths_link_block)
  qed
  have depths: "distinct ids \<and> (\<forall>i \<in> set ids. MemoryForkTree_block_depth ?t i = Ok d)"
    if "HashMap_get (mft_depths ?t) d = Some ids" for d ids
    by (rule depth_index_link_block [OF invd _ fresh that]) (use ix' in blast)
  show ?thesis
    unfolding index_ok_iff [OF invar_link_block(1) [OF inv]]
    using blocks depths invar_link_block(2) [OF invd] by blast
qed

text \<open>The depth a block gets.\<close>

definition child_depth ::
  "('b, 'id) Identified \<Rightarrow> ('b, 'id) MemoryForkTree \<Rightarrow> 'b \<Rightarrow> (usize, MemoryForkTreeQueryError) Result" where
  "child_depth I t b =
     (case block_parent_id I b of
        None \<Rightarrow> Ok 0
      | Some p \<Rightarrow> map_ok (\<lambda>d. d + 1) (MemoryForkTree_block_depth t p))"

lemma insert_Ok_link_block:
  assumes "MemoryForkTree_insert unq I t b = (Ok (), t')"
  shows "\<exists>d as. t' = link_block I b (new_item b d as) t \<and> child_depth I t b = Ok d"
proof (cases "block_parent_id I b")
  case None
  then show ?thesis using assms by (auto simp: insert_genesis_eq link_block_def child_depth_def)
next
  case (Some p)
  with assms obtain pit where "HashMap_get (mft_blocks t) p = Some pit"
    by (cases "HashMap_get (mft_blocks t) p") (auto simp: insert_unknown_parent_eq)
  with assms Some show ?thesis
    by (auto simp: insert_known_parent_eq Let_def link_block_def child_depth_def
        MemoryForkTree_block_depth_def split: Result.splits)
qed

lemma child_depth_parent_known:
  "child_depth I t b = Ok d \<Longrightarrow> block_parent_id I b = Some p \<Longrightarrow> HashMap_get (mft_blocks t) p \<noteq> None"
  by (auto simp: child_depth_def map_ok_eq_Ok block_depth_eq_Ok)

lemma block_link_block:
  "MemoryForkTree_block (link_block I b it t) j =
     (if j = block_id I b then Ok (item_block it) else MemoryForkTree_block t j)"
  by (cases "HashMap_get (mft_blocks t) j") (auto simp: MemoryForkTree_block_def get_link_block)

lemma index_insert:
  assumes "wf_tree I t" "index_ok I t" "HashMap_get (mft_blocks t) (block_id I b) = None"
    and "MemoryForkTree_insert unq I t b = (Ok (), t')"
  shows "index_ok I t'"
proof -
  obtain d as where "t' = link_block I b (new_item b d as) t" "child_depth I t b = Ok d"
    using insert_Ok_link_block [OF assms(4)] by blast
  moreover have "HashMap_invar (mft_blocks t)" using assms(1) by (simp add: wf_tree_def)
  ultimately show ?thesis
    using assms(2,3) by (simp add: index_link_block child_depth_parent_known)
qed

section \<open>Reachable trees\<close>

inductive tree_reachable ::
  "(usize list \<Rightarrow> usize list) \<Rightarrow> ('b, 'id) Identified \<Rightarrow> ('b, 'id) MemoryForkTree \<Rightarrow> bool"
  for unq I where
  empty: "tree_reachable unq I MemoryForkTree_new"
| insert: "tree_reachable unq I t \<Longrightarrow> HashMap_get (mft_blocks t) (block_id I b) = None \<Longrightarrow>
     tree_reachable unq I (snd (MemoryForkTree_insert unq I t b))"

definition shallow :: "('b, 'id) MemoryForkTree \<Rightarrow> bool" where
  "shallow t \<longleftrightarrow> (\<forall>i d. MemoryForkTree_block_depth t i = Ok d \<longrightarrow> unat d \<le> 3)"

lemma shallow_room: "shallow t \<Longrightarrow> depth_room I t b"
proof -
  assume sh: "shallow t"
  have "item_depth pit < - 1" if "HashMap_get (mft_blocks t) p = Some pit" for p pit
  proof -
    have "unat (item_depth pit) \<le> 3"
      using sh that by (auto simp: shallow_def block_depth_eq_Ok)
    then have "item_depth pit < 4" by (simp add: word_less_nat_alt)
    then show ?thesis by (rule less_le_trans) simp
  qed
  then show ?thesis by (auto simp: depth_room_def bind_eq_Some_conv split: option.splits)
qed

lemma shallow_outcome: "shallow t \<Longrightarrow> shallow (snd (insert_outcome I t b))"
proof -
  assume sh: "shallow t"
  have "unat (item_depth pit + 1) \<le> 3"
    if pit: "HashMap_get (mft_blocks t) p = Some pit" and n: "\<not> 4 dvd Suc (unat (item_depth pit))"
    for p pit
  proof -
    have le: "unat (item_depth pit) \<le> 3"
      using sh pit by (auto simp: shallow_def block_depth_eq_Ok)
    then have "item_depth pit < 4" by (simp add: word_less_nat_alt)
    then have "unat (item_depth pit + 1) = Suc (unat (item_depth pit))" by (rule unat_Suc_of_less)
    moreover have "unat (item_depth pit) \<noteq> 3" using n by auto
    ultimately show ?thesis using le by linarith
  qed
  with sh show ?thesis
    by (auto simp: insert_outcome_def shallow_def block_depth_add_block split: option.splits)
qed

lemma tree_reachable_inv:
  assumes "tree_reachable unq I t" "unique_spec unq"
  shows "wf_tree I t \<and> shallow t"
  using assms(1)
proof (induction rule: tree_reachable.induct)
  case empty
  then show ?case
    by (simp add: wf_tree_new shallow_def block_depth_eq_Ok) (simp add: MemoryForkTree_new_def)
next
  case (insert t b)
  then have "depth_room I t b" by (simp add: shallow_room)
  with insert show ?case
    using wf_insert [of I t b unq] shallow_outcome [of t I b]
    by (simp add: insert_eq_outcome [OF _ assms(2)])
qed

end
