(* ===== verification/ForkTreeProperties.thy ===== *)
theory ForkTreeProperties
  imports MemoryForkTreeInsert
begin

text \<open>
  The properties of the fork tree (\<open>blockchain/src/chain.rs\<close> and
  \<open>blockchain/src/memory/chain.rs\<close>), each with a witness on a concrete tree.

  The concrete trees hold blocks that are pairs of an identifier and an optional parent
  identifier (\<open>pair_ident\<close>). \<open>deep_tree\<close> is a chain of six blocks whose fifth block has
  the skip list that the insertion code describes; \<open>fork_chain n\<close> is the tree that \<open>n\<close>
  insertions into an empty tree produce.
\<close>

section \<open>Concrete trees\<close>

definition pair_ident :: "(nat \<times> nat option, nat) Identified" where
  "pair_ident = \<lparr>block_id = fst, block_parent_id = snd\<rparr>"

definition chain_block :: "nat \<Rightarrow> nat \<times> nat option" where
  "chain_block n = (n, if n = 0 then None else Some (n - 1))"

definition chain_item :: "nat \<Rightarrow> (usize \<times> nat) list \<Rightarrow> (nat \<times> nat option, nat) MemoryForkTreeItem" where
  "chain_item n as =
     \<lparr>item_block = chain_block n, item_depth = of_nat n, item_children = [n + 1],
      item_ancestors = as\<rparr>"

definition deep_tree :: "(nat \<times> nat option, nat) MemoryForkTree" where
  "deep_tree =
     \<lparr>mft_blocks = [(0, chain_item 0 []), (1, chain_item 1 []), (2, chain_item 2 []),
        (3, chain_item 3 []), (4, chain_item 4 [(0, 0)]), (5, chain_item 5 [])],
      mft_depths = [(0, [0]), (1, [1]), (2, [2]), (3, [3]), (4, [4]), (5, [5])]\<rparr>"

text \<open>The same chain with its third block lost and a skip list entry that skips the wrong number of
  blocks.\<close>

definition torn_tree :: "(nat \<times> nat option, nat) MemoryForkTree" where
  "torn_tree =
     \<lparr>mft_blocks = [(0, chain_item 0 []), (1, chain_item 1 []), (3, chain_item 3 []),
        (4, chain_item 4 [(2, 3)]), (5, chain_item 5 [])], mft_depths = []\<rparr>"

definition unique_first :: "'a list \<Rightarrow> 'a list" where
  "unique_first xs = rev (remdups (rev xs))"

fun fork_chain :: "nat \<Rightarrow> (nat \<times> nat option, nat) MemoryForkTree" where
  "fork_chain 0 = MemoryForkTree_new"
| "fork_chain (Suc n) = snd (MemoryForkTree_insert unique_first pair_ident (fork_chain n) (chain_block n))"

lemma unique_first_spec: "unique_spec unique_first"
  by (simp add: unique_spec_def unique_first_def)

lemma wf_deep_tree: "wf_tree pair_ident deep_tree"
  by code_simp

lemma fork_chain_4: "wf_tree pair_ident (fork_chain 4)" "index_ok pair_ident (fork_chain 4)"
  by code_simp+

section \<open>Links that go up\<close>

text \<open>Stored parents and stored skip list entries have a smaller depth than the block itself. Every
  well-formed tree is of this kind; nothing is asked of identifiers, of missing blocks or of the number
  of generations that an entry skips.\<close>

definition links_descend :: "('b, 'id) Identified \<Rightarrow> ('b, 'id) MemoryForkTree \<Rightarrow> bool" where
  "links_descend I t \<longleftrightarrow>
     (\<forall>(i, it) \<in> set (mft_blocks t).
        \<forall>j \<in> set_option (block_parent_id I (item_block it)) \<union> snd ` set (item_ancestors it).
          case HashMap_get (mft_blocks t) j of None \<Rightarrow> True | Some jt \<Rightarrow> item_depth jt < item_depth it)"

lemma next_ancestor_id_link:
  "next_ancestor_id it d p \<in> {p} \<union> snd ` set (item_ancestors it)"
proof (cases "iter_reduce min_by_depth (filter (\<lambda>(e, _). e \<ge> d) (item_ancestors it))")
  case (Some z)
  from iter_reduce_in [OF min_by_depth_choice Some] have "snd z \<in> snd ` set (item_ancestors it)" by auto
  with Some show ?thesis by (simp add: next_ancestor_id_def case_prod_beta)
qed (simp add: next_ancestor_id_def)

lemma links_descend_next:
  assumes "links_descend I t" "HashMap_get (mft_blocks t) i = Some it"
    and "block_parent_id I (item_block it) = Some p"
    and "HashMap_get (mft_blocks t) (next_ancestor_id it d p) = Some nit"
  shows "unat (item_depth nit) < unat (item_depth it)"
  using assms(1) [unfolded links_descend_def, rule_format, OF map_of_SomeD [OF assms(2)]]
    next_ancestor_id_link [of it d p] assms(3,4)
  by (auto simp: word_less_nat_alt)

lemma ancestor_loop_returns:
  assumes "links_descend I t"
  shows "HashMap_get (mft_blocks t) i = Some it \<Longrightarrow> \<exists>r. ancestor_loop I t it d = Some r"
proof (induction "unat (item_depth it)" arbitrary: i it rule: less_induct)
  case less
  then have "\<exists>r. ancestor_loop I t nit d = Some r"
    if "block_parent_id I (item_block it) = Some p"
      "HashMap_get (mft_blocks t) (next_ancestor_id it d p) = Some nit" for p nit
    using links_descend_next [OF assms less.prems that] that(2) by blast
  then show ?case by (subst ancestor_loop_unfold) (auto split: option.splits)
qed

lemma wf_links_descend: "wf_tree I t \<Longrightarrow> links_descend I t"
proof -
  assume wf: "wf_tree I t"
  have "item_depth jt < item_depth it"
    if it: "HashMap_get (mft_blocks t) i = Some it" and jt: "HashMap_get (mft_blocks t) j = Some jt"
      and j: "j \<in> set_option (block_parent_id I (item_block it)) \<union> snd ` set (item_ancestors it)" for i it j jt
  proof -
    have ok: "item_ok I t i it" using wf it by (rule wf_tree_item)
    from j consider "block_parent_id I (item_block it) = Some j" | e where "(e, j) \<in> set (item_ancestors it)"
      by auto
    then show ?thesis
    proof cases
      case 1
      then show ?thesis using ok jt by (auto simp: item_ok_def word_less_nat_alt)
    next
      case 2
      then have e: "e < item_depth it" "climb (parent_of I t) (unat (item_depth it) - unat e) i = Some j"
        using ok by (auto simp: item_ok_def)
      have "MemoryForkTree_block_depth t i = Ok (item_depth it)" using it by (simp add: block_depth_eq_Ok)
      from mft.climb_depth [OF wf, simplified, OF this e(2)] jt e(1) show ?thesis
        by (auto simp: block_depth_eq_Ok word_less_nat_alt)
    qed
  qed
  moreover have "HashMap_invar (mft_blocks t)" using wf by (simp add: wf_tree_def)
  ultimately show ?thesis by (fastforce simp: links_descend_def dest: map_of_is_SomeI split: option.splits)
qed

section \<open>Queries\<close>

text \<open>C1. On a well-formed tree the search loop of \<open>ancestor_id_at_depth\<close>, entered at any
  block, terminates and returns the block at the requested depth on the path from that block
  to its root, whatever the skip lists hold.\<close>

theorem ancestor_loop_finds_ancestor:
  assumes "wf_tree I t" "HashMap_get (mft_blocks t) i = Some it" "d \<le> item_depth it"
  shows "\<exists>a. ancestor_loop I t it d = Some (Ok a) \<and>
    climb (parent_of I t) (unat (item_depth it) - unat d) i = Some a \<and>
    MemoryForkTree_block_depth t a = Ok d"
proof -
  obtain a where a: "ancestor_loop I t it d = Some (Ok a)"
    "climb (parent_of I t) (unat (item_depth it) - unat d) i = Some a"
    using ancestor_loop_correct [OF assms] by blast
  have "MemoryForkTree_block_depth t i = Ok (item_depth it)"
    using assms(2) by (simp add: block_depth_eq_Ok)
  from mft.climb_depth [OF assms(1), simplified, OF this a(2)] obtain e where
    e: "MemoryForkTree_block_depth t a = Ok e"
      "unat (item_depth it) = unat e + (unat (item_depth it) - unat d)"
    by blast
  then have "unat e = unat d" using assms(3) by (simp add: word_le_nat_alt)
  with a e show ?thesis by (auto simp: word_unat_eq_iff)
qed

theorem ancestor_loop_finds_ancestor_witness:
  "wf_tree pair_ident deep_tree \<and>
   (\<exists>a. ancestor_loop pair_ident deep_tree (chain_item 5 []) 0 = Some (Ok a) \<and>
     climb (parent_of pair_ident deep_tree) 5 5 = Some a \<and>
     MemoryForkTree_block_depth deep_tree a = Ok 0)"
proof -
  have "HashMap_get (mft_blocks deep_tree) 5 = Some (chain_item 5 [])" by code_simp
  from ancestor_loop_finds_ancestor [OF wf_deep_tree this, of 0] wf_deep_tree
  show ?thesis by (simp add: chain_item_def)
qed

text \<open>C18. The search loop returns on every tree in which the stored links go up, well formed or not:
  when the parent of every stored block and every entry of its skip list, as far as they are stored at
  all, have a smaller depth, the loop returns for every block and every requested depth, with an answer
  or with an error. Missing parents, wrong identifiers and wrong skip list entries do not make it
  run forever.\<close>

theorem ancestor_loop_terminates:
  assumes "links_descend I t" "HashMap_get (mft_blocks t) i = Some it"
  shows "\<exists>r. ancestor_loop I t it d = Some r"
  using assms by (rule ancestor_loop_returns)

theorem ancestor_loop_terminates_witness:
  "\<not> wf_tree pair_ident torn_tree \<and>
   (\<exists>r. ancestor_loop pair_ident torn_tree (chain_item 5 []) 0 = Some r)"
proof -
  have "HashMap_get (mft_blocks torn_tree) 5 = Some (chain_item 5 [])" "links_descend pair_ident torn_tree"
    "\<not> wf_tree pair_ident torn_tree" by code_simp+
  with ancestor_loop_terminates [of pair_ident torn_tree 5 "chain_item 5 []" 0] show ?thesis by blast
qed

text \<open>C6. The test in front of the loop is reversed: \<open>ancestor_id_at_depth\<close> answers for the
  block's own depth only, and reports \<open>InvalidAncestorDepth\<close> for every proper ancestor and
  every greater depth alike.\<close>

theorem ancestor_query_own_depth_only:
  "wf_tree I t \<Longrightarrow> MemoryForkTree_block_depth t i = Ok d \<Longrightarrow>
   MemoryForkTree_ancestor_id_at_depth I t i e = (if e = d then Ok i else Err InvalidAncestorDepth)"
  by (rule wf_tree_ancestor)

theorem ancestor_query_own_depth_only_witness:
  "MemoryForkTree_ancestor_id_at_depth pair_ident deep_tree 5 4 = Err InvalidAncestorDepth"
proof -
  have "MemoryForkTree_block_depth deep_tree 5 = Ok 5" by code_simp
  from ancestor_query_own_depth_only [OF wf_deep_tree this, of 4] show ?thesis by simp
qed

text \<open>The search loop is all that a correct query needs: with the loop called directly, the
  default \<open>is_ancestor\<close> decides ancestry between any two known blocks exactly.\<close>

lemma is_ancestor_by_search:
  assumes "wf_tree I t" "MemoryForkTree_block_depth t i = Ok d"
    and "MemoryForkTree_block_depth t s = Ok e" "e \<le> d"
  shows "ForkTree_is_ancestor (search_ForkTree I) t i s =
    Ok (\<exists>n. climb (parent_of I t) n i = Some s)"
proof -
  have "n = unat d - unat e" if "climb (parent_of I t) n i = Some s" for n
    using search.climb_depth [OF assms(1), simplified, OF assms(2) that] assms(3) by auto
  then have "(\<exists>n. climb (parent_of I t) n i = Some s) \<longleftrightarrow>
      climb (parent_of I t) (unat d - unat e) i = Some s" by auto
  with search.is_ancestor_complete [OF assms(1), simplified, OF assms(2-4)] show ?thesis by simp
qed

section \<open>Insertion\<close>

text \<open>C2. What \<open>insert\<close> does on every branch: a block without parent becomes a root at depth
  0; an unknown parent is reported and nothing changes; a block whose depth is a multiple of
  four fails with the query error after its identifier was pushed onto the parent's child list;
  every other block is stored at the parent's depth plus one with an empty skip list.\<close>

theorem insert_behaviour:
  assumes "wf_tree I t" "unique_spec unq" "depth_room I t b"
  shows "MemoryForkTree_insert unq I t b =
    (case block_parent_id I b of
       None \<Rightarrow> (Ok (), add_block (block_id I b) (new_item b 0 []) t)
     | Some p \<Rightarrow>
         (case HashMap_get (mft_blocks t) p of
            None \<Rightarrow> (Err UnknownParent, t)
          | Some pit \<Rightarrow>
              if 4 dvd Suc (unat (item_depth pit))
              then (Err (Query InvalidAncestorDepth), push_child p (block_id I b) t)
              else (Ok (), add_block (block_id I b) (new_item b (item_depth pit + 1) [])
                             (push_child p (block_id I b) t))))"
  using insert_eq_outcome [OF assms] by (simp add: insert_outcome_def)

theorem insert_behaviour_witness:
  "MemoryForkTree_insert unique_first pair_ident deep_tree (10, Some 3) =
     (Err (Query InvalidAncestorDepth), push_child 3 10 deep_tree) \<and>
   MemoryForkTree_insert unique_first pair_ident deep_tree (10, Some 4) =
     (Ok (), add_block 10 (new_item (10, Some 4) 5 []) (push_child 4 10 deep_tree))"
proof -
  have "depth_room pair_ident deep_tree (10, Some 3)" "depth_room pair_ident deep_tree (10, Some 4)"
    by code_simp+
  from this [THEN insert_behaviour [OF wf_deep_tree unique_first_spec]]
  show ?thesis by (simp add: pair_ident_def deep_tree_def chain_item_def)
qed

text \<open>C19. Inserting a fresh block keeps the tree well formed (identifiers, depths and skip
  lists agree with the parent links) on success and on every error, provided the depth
  counter does not overflow.\<close>

theorem insert_keeps_wf:
  assumes "wf_tree I t" "HashMap_get (mft_blocks t) (block_id I b) = None" "depth_room I t b"
  shows "wf_tree I (snd (MemoryForkTree_insert unq I t b))"
  using assms by (rule wf_insert)

theorem insert_keeps_wf_witness:
  "wf_tree pair_ident (snd (MemoryForkTree_insert unique_first pair_ident deep_tree (10, Some 4)))"
proof (rule insert_keeps_wf [OF wf_deep_tree])
  show "HashMap_get (mft_blocks deep_tree) (block_id pair_ident (10, Some 4)) = None"
    "depth_room pair_ident deep_tree (10, Some 4)" by code_simp+
qed

text \<open>C20. A successful insertion of a fresh block keeps the child lists and the depth index
  exact: every block is listed once under its parent and once under its depth, and nothing else
  is listed.\<close>

theorem insert_keeps_index:
  assumes "wf_tree I t" "index_ok I t" "HashMap_get (mft_blocks t) (block_id I b) = None"
    and "MemoryForkTree_insert unq I t b = (Ok (), t')"
  shows "index_ok I t'"
  using assms by (rule index_insert)

theorem insert_keeps_index_witness:
  "index_ok pair_ident (snd (MemoryForkTree_insert unique_first pair_ident (fork_chain 4) (9, Some 0)))"
proof (rule insert_keeps_index [OF fork_chain_4])
  show "HashMap_get (mft_blocks (fork_chain 4)) (block_id pair_ident (9, Some 0)) = None"
    by code_simp
  have "fst (MemoryForkTree_insert unique_first pair_ident (fork_chain 4) (9, Some 0)) = Ok ()"
    by code_simp
  then show "MemoryForkTree_insert unique_first pair_ident (fork_chain 4) (9, Some 0) =
    (Ok (), snd (MemoryForkTree_insert unique_first pair_ident (fork_chain 4) (9, Some 0)))"
    by (simp add: prod_eq_iff)
qed

text \<open>Where the child list of a stored block repeats an identifier, the index is broken.\<close>

lemma index_ok_children:
  assumes "index_ok I t" "HashMap_get (mft_blocks t) p = Some pit"
  shows "distinct (item_children pit)"
  using assms(1) map_of_SomeD [OF assms(2)] by (auto simp: index_ok_def)

lemma index_ok_listed:
  assumes "index_ok I t" "HashMap_get (mft_blocks t) i = Some it"
    and "block_parent_id I (item_block it) = Some p" "HashMap_get (mft_blocks t) p = Some pit"
  shows "i \<in> set (item_children pit)"
  using assms(1) [unfolded index_ok_def] map_of_SomeD [OF assms(2)] assms(3,4)
  by (auto dest!: bspec [OF conjunct1 [OF conjunct2]])

text \<open>C21. \<open>insert\<close> has no test for a block that is already there: inserting a stored block again, at a
  depth that is no multiple of four, succeeds and corrupts a consistent tree. The parent lists the
  block a second time, the block's own child list is emptied although its children stay in the tree,
  and the child lists and the depth index no longer agree with the blocks.\<close>

theorem reinsert_corrupts_index:
  assumes "wf_tree I t" "index_ok I t" "unique_spec unq" "HashMap_get (mft_blocks t) (block_id I b) = Some it"
    and "item_block it = b" "block_parent_id I b = Some p" "\<not> 4 dvd unat (item_depth it)"
  shows "\<exists>t' pit pit' it'. MemoryForkTree_insert unq I t b = (Ok (), t') \<and>
    HashMap_get (mft_blocks t) p = Some pit \<and> block_id I b \<in> set (item_children pit) \<and>
    HashMap_get (mft_blocks t') p = Some pit' \<and> item_children pit' = item_children pit @ [block_id I b] \<and>
    HashMap_get (mft_blocks t') (block_id I b) = Some it' \<and> item_children it' = [] \<and>
    \<not> index_ok I t'"
proof -
  let ?i = "block_id I b"
  obtain pit where pit: "HashMap_get (mft_blocks t) p = Some pit"
    "unat (item_depth it) = Suc (unat (item_depth pit))"
    using wf_tree_item [OF assms(1,4)] assms(5,6) by (auto simp: item_ok_def split: option.splits)
  have ne: "p \<noteq> ?i" using pit assms(4) by auto
  have "item_depth pit < item_depth it" using pit(2) by (simp add: word_less_nat_alt)
  then have "item_depth pit < - 1" using word_n1_ge [of "item_depth it"] by (rule less_le_trans)
  then have room: "depth_room I t b" using pit(1) assms(6) by (simp add: depth_room_def)
  let ?t = "add_block ?i (new_item b (item_depth pit + 1) []) (push_child p ?i t)"
  have ins: "MemoryForkTree_insert unq I t b = (Ok (), ?t)"
    using insert_eq_outcome [OF assms(1,3) room] assms(6,7) pit by (simp add: insert_outcome_def)
  have listed: "?i \<in> set (item_children pit)"
    using index_ok_listed [OF assms(2,4) _ pit(1)] assms(5,6) by simp
  have get: "HashMap_get (mft_blocks ?t) p = Some (pit\<lparr>item_children := item_children pit @ [?i]\<rparr>)"
    "HashMap_get (mft_blocks ?t) ?i = Some (new_item b (item_depth pit + 1) [])"
    using ne pit(1) by (simp_all add: get_add_block get_push_child)
  have "\<not> index_ok I ?t" using index_ok_children [OF _ get(1)] listed by auto
  with ins pit(1) listed get show ?thesis by fastforce
qed

theorem reinsert_corrupts_index_witness:
  "\<exists>t'. MemoryForkTree_insert unique_first pair_ident (fork_chain 4) (chain_block 1) = (Ok (), t') \<and>
     index_ok pair_ident (fork_chain 4) \<and> \<not> index_ok pair_ident t'"
proof -
  let ?it = "\<lparr>item_block = chain_block 1, item_depth = 1, item_children = [2], item_ancestors = []\<rparr>"
  have it: "HashMap_get (mft_blocks (fork_chain 4)) (block_id pair_ident (chain_block 1)) = Some ?it"
    by code_simp
  have "block_parent_id pair_ident (chain_block 1) = Some 0" by code_simp
  from reinsert_corrupts_index [OF fork_chain_4 unique_first_spec it _ this] fork_chain_4(2)
  show ?thesis by auto
qed

text \<open>C30. A block that was inserted is read back with the depth its parent gives it, and the
  insertion changes no other block and no other depth.\<close>

theorem insert_then_lookup:
  assumes "MemoryForkTree_insert unq I t b = (Ok (), t')"
  shows "MemoryForkTree_block t' (block_id I b) = Ok b \<and>
    MemoryForkTree_block_depth t' (block_id I b) =
      (case block_parent_id I b of
         None \<Rightarrow> Ok 0
       | Some p \<Rightarrow> map_ok (\<lambda>d. d + 1) (MemoryForkTree_block_depth t p)) \<and>
    (\<forall>j. j \<noteq> block_id I b \<longrightarrow> MemoryForkTree_block t' j = MemoryForkTree_block t j \<and>
       MemoryForkTree_block_depth t' j = MemoryForkTree_block_depth t j)"
proof -
  obtain d as where "t' = link_block I b (new_item b d as) t" "child_depth I t b = Ok d"
    using insert_Ok_link_block [OF assms] by blast
  then show ?thesis
    by (simp add: block_link_block block_depth_link_block flip: child_depth_def)
qed

theorem insert_then_lookup_witness:
  "MemoryForkTree_block (snd (MemoryForkTree_insert unique_first pair_ident (fork_chain 4) (9, Some 0))) 9
     = Ok (9, Some 0)"
proof -
  have "fst (MemoryForkTree_insert unique_first pair_ident (fork_chain 4) (9, Some 0)) = Ok ()"
    by code_simp
  then have "MemoryForkTree_insert unique_first pair_ident (fork_chain 4) (9, Some 0) =
    (Ok (), snd (MemoryForkTree_insert unique_first pair_ident (fork_chain 4) (9, Some 0)))"
    by (simp add: prod_eq_iff)
  from insert_then_lookup [OF this] show ?thesis by (simp add: pair_ident_def)
qed

text \<open>A failed insertion is not undone: where the skip list is due, the new identifier
  stays in the parent's child list although no block with it is stored.\<close>

lemma failed_insert_leaves_child:
  assumes "wf_tree I t" "unique_spec unq"
    and "block_parent_id I b = Some p" "HashMap_get (mft_blocks t) p = Some pit"
    and "item_depth pit < - 1" "4 dvd Suc (unat (item_depth pit))"
    and "HashMap_get (mft_blocks t) (block_id I b) = None"
  shows "\<exists>t' pit'. MemoryForkTree_insert unq I t b = (Err (Query InvalidAncestorDepth), t') \<and>
    HashMap_get (mft_blocks t') p = Some pit' \<and> block_id I b \<in> set (item_children pit') \<and>
    MemoryForkTree_block t' (block_id I b) = Err UnknownBlock"
proof -
  have "depth_room I t b" using assms(3-5) by (simp add: depth_room_def)
  then have "MemoryForkTree_insert unq I t b =
      (Err (Query InvalidAncestorDepth), push_child p (block_id I b) t)"
    using insert_eq_outcome [OF assms(1,2)] assms(3,4,6) by (simp add: insert_outcome_def)
  moreover have "block_id I b \<noteq> p" using assms(4,7) by auto
  ultimately show ?thesis
    using assms(4,7) by (simp add: get_push_child MemoryForkTree_block_def)
qed

section \<open>Reachable trees\<close>

text \<open>C7. In every tree built from the empty one by insertions of fresh blocks, failed ones
  included, all blocks are well formed and no block is deeper than 3: a chain of more than four
  blocks cannot be built.\<close>

theorem reachable_depth_bound:
  assumes "tree_reachable unq I t" "unique_spec unq"
  shows "wf_tree I t \<and> (\<forall>i d. MemoryForkTree_block_depth t i = Ok d \<longrightarrow> d \<le> 3)"
  using tree_reachable_inv [OF assms] by (auto simp: shallow_def word_le_nat_alt)

lemma fork_chain_reachable: "n \<le> 4 \<Longrightarrow> tree_reachable unique_first pair_ident (fork_chain n)"
proof (induction n)
  case (Suc n)
  have "\<forall>n \<in> {0, 1, 2, 3}. HashMap_get (mft_blocks (fork_chain n)) (block_id pair_ident (chain_block n)) = None"
    by code_simp
  with Suc show ?case by (auto intro!: tree_reachable.insert simp: le_Suc_eq numeral_eq_Suc)
qed (simp add: tree_reachable.empty)

theorem reachable_depth_bound_witness:
  "wf_tree pair_ident (fork_chain 4) \<and> MemoryForkTree_block_depth (fork_chain 4) 3 = Ok 3"
proof -
  have "MemoryForkTree_block_depth (fork_chain 4) 3 = Ok 3" by code_simp
  with reachable_depth_bound [OF fork_chain_reachable unique_first_spec, of 4]
  show ?thesis by simp
qed

end
