(* ===== verification/SkipListSearch.thy ===== *)
theory SkipListSearch
  imports ForkTreeProperties
begin

text \<open>
  The skip lists of \<open>blockchain/src/memory/chain.rs\<close> make the search loop fast. \<open>due_skips\<close> are the
  depths that a block's skip list should have, written down independently of the code: one jump for
  every power of four from \<open>4\<close> to \<open>4 ^ 16\<close> that divides the depth of the block. When every block has
  exactly these entries (\<open>skips_complete\<close>), a search over a distance below \<open>4 ^ K\<close>, \<open>K \<le> 17\<close>, takes at
  most \<open>6 * K\<close> jumps; \<open>skip_depths_due_skips\<close> shows that they are the depths \<open>insert\<close> asks for.

  The bound is one of the search loop and of the table \<open>SKIP_DEPTHS\<close>. The guard in front of the loop
  keeps \<open>insert\<close> from ever storing an entry (\<open>insert_behaviour\<close>), so that in a tree built by the code
  no block is deep enough to have one.

  \<open>ancestor_rounds\<close> is the loop with a bound on its rounds; the jumps of the search are described on
  depths alone by \<open>descends\<close>.
\<close>

section \<open>Descents\<close>

text \<open>From depth \<open>n\<close> towards depth \<open>d\<close> the search jumps by the largest power of four up to \<open>4 ^ 16\<close>
  that divides \<open>n\<close> and does not overshoot; \<open>4 ^ 0\<close> is the step to the parent.\<close>

definition jump_level :: "nat \<Rightarrow> nat \<Rightarrow> nat \<Rightarrow> bool" where
  "jump_level n d k \<longleftrightarrow> k \<le> 16 \<and> 4 ^ k dvd n \<and> 4 ^ k \<le> n - d \<and>
     (\<forall>j \<le> 16. 4 ^ j dvd n \<longrightarrow> 4 ^ j \<le> n - d \<longrightarrow> j \<le> k)"

inductive descends :: "nat \<Rightarrow> nat \<Rightarrow> nat \<Rightarrow> bool" for d where
  descends_done: "descends d d 0"
| descends_jump: "d < n \<Longrightarrow> jump_level n d k \<Longrightarrow> descends d (n - 4 ^ k) m \<Longrightarrow> descends d n (Suc m)"

lemma ex_le_mono: "\<exists>m \<le> a. P m \<Longrightarrow> a \<le> b \<Longrightarrow> \<exists>m \<le> b. P m" for a b :: nat
  by (blast intro: le_trans)

text \<open>\<open>q\<close> jumps of one size, as long as that size is the right one.\<close>

lemma descends_jumps:
  assumes "\<And>i. i < q \<Longrightarrow> d < n - i * 4 ^ k \<and> jump_level (n - i * 4 ^ k) d k"
    and "descends d (n - q * 4 ^ k) m"
  shows "descends d n (q + m)"
  using assms
proof (induction q arbitrary: n)
  case (Suc q)
  have "descends d (n - 4 ^ k) (q + m)"
  proof (rule Suc.IH)
    show "d < n - 4 ^ k - i * 4 ^ k \<and> jump_level (n - 4 ^ k - i * 4 ^ k) d k" if "i < q" for i
      using Suc.prems(1) [of "Suc i"] that by (simp add: diff_diff_eq add.commute)
    show "descends d (n - 4 ^ k - q * 4 ^ k) m"
      using Suc.prems(2) by (simp add: diff_diff_eq add.commute)
  qed
  with Suc.prems(1) [of 0] show ?case by (auto intro: descends_jump)
qed simp

lemma jump_level_below:
  assumes "4 ^ k dvd n" "k \<le> 16" "4 ^ k \<le> n - d" "n - d < 4 ^ Suc k"
  shows "jump_level n d k"
  unfolding jump_level_def
proof (intro conjI allI impI)
  fix j assume "4 ^ j \<le> n - d"
  then have "(4::nat) ^ j < 4 ^ Suc k" using assms(4) by simp
  then show "j \<le> k" using power_less_imp_less_exp [of "4 :: nat" j "Suc k"] by simp
qed (use assms in auto)

text \<open>Down: a distance below \<open>4 ^ k\<close> from a multiple of \<open>4 ^ k\<close>, by at most three jumps of each
  smaller size.\<close>

lemma descend_down:
  assumes "4 ^ k dvd n" "d \<le> n" "n - d < 4 ^ k" "k \<le> 17"
  shows "\<exists>m \<le> 3 * k. descends d n m"
  using assms
proof (induction k arbitrary: n)
  case 0
  then have "n = d" by simp
  then show ?case by (auto intro: descends_done)
next
  case (Suc k)
  define q where "q = (n - d) div 4 ^ k"
  have q: "q < 4" using Suc.prems(3) by (simp add: q_def less_mult_imp_div_less)
  have le: "q * 4 ^ k \<le> n - d" by (simp add: q_def)
  have dvd: "4 ^ k dvd n" using Suc.prems(1) by (auto intro: dvd_trans [OF le_imp_power_dvd])
  have "n - q * 4 ^ k - d = (n - d) mod 4 ^ k"
    using minus_div_mult_eq_mod [of "n - d" "4 ^ k"] by (simp add: q_def)
  then have "\<exists>m \<le> 3 * k. descends d (n - q * 4 ^ k) m"
    using Suc.prems(2,4) le dvd by (intro Suc.IH) auto
  then obtain m where m: "m \<le> 3 * k" "descends d (n - q * 4 ^ k) m" by blast
  have jumps: "d < n - i * 4 ^ k \<and> jump_level (n - i * 4 ^ k) d k" if "i < q" for i
  proof -
    have "Suc i * 4 ^ k \<le> q * 4 ^ k" using that by (intro mult_le_mono1) simp
    then have *: "i * 4 ^ k + 4 ^ k \<le> n - d" using le by simp
    have "0 < (4::nat) ^ k" by simp
    with * have "d < n - i * 4 ^ k" by linarith
    moreover have "jump_level (n - i * 4 ^ k) d k"
      using * dvd Suc.prems(3,4) by (intro jump_level_below) (auto intro: dvd_diff_nat)
    ultimately show ?thesis ..
  qed
  from descends_jumps [OF jumps m(2)] q m(1) show ?case by (intro exI [of _ "q + m"]) auto
qed

text \<open>Up: from a multiple of \<open>4 ^ k\<close>, at most three jumps of each size until the next size is
  possible or the target is near.\<close>

lemma jump_level_odd:
  assumes "4 ^ k dvd n" "k \<le> 16" "4 ^ k \<le> n - d" "\<not> 4 ^ Suc k dvd n"
  shows "jump_level n d k"
  unfolding jump_level_def
proof (intro conjI allI impI)
  fix j assume "4 ^ j dvd n"
  show "j \<le> k"
  proof (rule ccontr)
    assume "\<not> j \<le> k"
    then have "(4::nat) ^ Suc k dvd 4 ^ j" by (intro le_imp_power_dvd) simp
    with \<open>4 ^ j dvd n\<close> assms(4) show False by (blast intro: dvd_trans)
  qed
qed (use assms in auto)

lemma descend_up_step:
  assumes "\<And>n. 4 ^ Suc k dvd n \<Longrightarrow> d \<le> n \<Longrightarrow> n - d < B \<Longrightarrow> \<exists>m \<le> c. descends d n m"
    and "k \<le> 16" "3 * k \<le> c" "4 ^ k dvd n" "d \<le> n" "n - d < B" "n div 4 ^ k mod 4 = r"
  shows "\<exists>m \<le> r + c. descends d n m"
  using assms(4-7)
proof (induction r arbitrary: n)
  case 0
  obtain x where x: "n = 4 ^ k * x" using 0(1) by (auto elim: dvdE)
  then have "4 dvd x" using 0(4) by auto
  then have "4 ^ Suc k dvd n" using x by (auto simp: mult.assoc)
  then show ?case using assms(1) [of n] 0 by simp
next
  case (Suc r)
  show ?case
  proof (cases "n - d < 4 ^ k")
    case True
    have "\<exists>m \<le> 3 * k. descends d n m" using Suc.prems(1,2) True assms(2) by (intro descend_down) simp_all
    then show ?thesis by (rule ex_le_mono) (use assms(3) in simp)
  next
    case False
    obtain x where x: "n = 4 ^ k * x" using Suc.prems(1) by (auto elim: dvdE)
    have r: "x mod 4 = Suc r" using Suc.prems(4) x by simp
    then have "\<not> 4 dvd x" by presburger
    then have odd: "\<not> 4 ^ Suc k dvd n" by (simp add: x mult.commute [of 4])
    have n': "n - 4 ^ k = 4 ^ k * (x - 1)" by (simp add: x algebra_simps)
    have "x - 1 = r + 4 * (x div 4)" using r div_mult_mod_eq [of x 4] by linarith
    moreover have "r < 4" using r mod_less_divisor [of 4 x] by simp
    ultimately have r': "(x - 1) mod 4 = r" by simp
    have "\<exists>m \<le> r + c. descends d (n - 4 ^ k) m"
    proof (rule Suc.IH)
      show "4 ^ k dvd n - 4 ^ k" by (simp add: n')
      show "d \<le> n - 4 ^ k" "n - 4 ^ k - d < B" using False Suc.prems(2,3) by linarith+
      show "(n - 4 ^ k) div 4 ^ k mod 4 = r" unfolding n' using r' by simp
    qed
    then obtain m where m: "m \<le> r + c" "descends d (n - 4 ^ k) m" by blast
    have "0 < (4::nat) ^ k" by simp
    then have "d < n" using False Suc.prems(2) by linarith
    with m jump_level_odd [OF Suc.prems(1) assms(2) _ odd, of d] False show ?thesis
      by (intro exI [of _ "Suc m"]) (auto intro: descends_jump)
  qed
qed

lemma descend_up:
  assumes "j \<le> K" "K \<le> 17" "4 ^ (K - j) dvd n" "d \<le> n" "n - d < 4 ^ K"
  shows "\<exists>m \<le> 3 * j + 3 * K. descends d n m"
  using assms
proof (induction j arbitrary: n)
  case 0
  then show ?case using descend_down [of K n d] by auto
next
  case (Suc j)
  have K: "K - j = Suc (K - Suc j)" using Suc.prems(1) by simp
  have "\<exists>m \<le> n div 4 ^ (K - Suc j) mod 4 + (3 * j + 3 * K). descends d n m"
    by (rule descend_up_step [where B = "4 ^ K", OF Suc.IH [unfolded K]])
      (use Suc.prems in auto)
  then show ?case
  proof (rule ex_le_mono)
    have "x mod 4 \<le> 3" for x :: nat by presburger
    from this [of "n div 4 ^ (K - Suc j)"]
    show "n div 4 ^ (K - Suc j) mod 4 + (3 * j + 3 * K) \<le> 3 * Suc j + 3 * K"
      by (simp only: mult_Suc_right add.assoc add_le_mono1)
  qed
qed

lemma descend_bound:
  assumes "K \<le> 17" "d \<le> n" "n - d < 4 ^ K"
  shows "\<exists>m \<le> 6 * K. descends d n m"
  using descend_up [of K K n d] assms by simp

section \<open>Complete skip lists\<close>

text \<open>The depths that the skip list of a block at depth \<open>n\<close> should have, and the trees in which every
  block has exactly these entries.\<close>

definition due_skips :: "nat \<Rightarrow> nat list" where
  "due_skips n = map (\<lambda>k. n - 4 ^ k) (filter (\<lambda>k. 4 ^ k dvd n \<and> 4 ^ k \<le> n) [1..<17])"

definition skips_complete :: "('b, 'id) MemoryForkTree \<Rightarrow> bool" where
  "skips_complete t \<longleftrightarrow>
     (\<forall>(i, it) \<in> set (mft_blocks t).
        set (map (\<lambda>(e, _). unat e) (item_ancestors it)) = set (due_skips (unat (item_depth it))))"

lemma in_due_skips: "x \<in> set (due_skips n) \<longleftrightarrow> (\<exists>k \<in> {1..16}. 4 ^ k dvd n \<and> 4 ^ k \<le> n \<and> x = n - 4 ^ k)"
  unfolding due_skips_def by (auto simp: less_Suc_eq_le [of _ 16, simplified])

lemma power_in_SKIP_DEPTHS:
  assumes "k \<in> {1..16}"
  shows "\<exists>s \<in> set SKIP_DEPTHS. unat s = 4 ^ k"
proof -
  have "k \<in> set [1..<17]" using assms by auto
  then have "4 ^ k \<in> set (map unat SKIP_DEPTHS)" unfolding SKIP_DEPTHS_nat by (simp only: set_map) (rule imageI)
  then show ?thesis by auto
qed

lemma skip_depths_nat:
  assumes "unique_spec unq"
  shows "e \<in> set (skip_ancestor_depths unq depth) \<longleftrightarrow>
     (\<exists>k \<in> {1..16}. 4 ^ k dvd unat depth \<and> 4 ^ k \<le> unat depth \<and> unat e = unat depth - 4 ^ k)"
proof
  assume "e \<in> set (skip_ancestor_depths unq depth)"
  then obtain s where s: "s \<in> set SKIP_DEPTHS" "s \<le> depth" "unat s dvd unat depth" "e = depth - s"
    unfolding set_skip_ancestor_depths [OF assms] word_le_nat_alt by blast
  obtain k where "k \<in> {1..16}" "unat s = 4 ^ k" using unat_SKIP_DEPTHS [OF s(1)] by blast
  with s show "\<exists>k \<in> {1..16}. 4 ^ k dvd unat depth \<and> 4 ^ k \<le> unat depth \<and> unat e = unat depth - 4 ^ k"
    by (intro bexI [of _ k]) (simp_all add: unat_diff_of_le word_le_nat_alt)
next
  assume "\<exists>k \<in> {1..16}. 4 ^ k dvd unat depth \<and> 4 ^ k \<le> unat depth \<and> unat e = unat depth - 4 ^ k"
  then obtain k where k: "k \<in> {1..16}" "4 ^ k dvd unat depth" "4 ^ k \<le> unat depth"
    "unat e = unat depth - 4 ^ k" by blast
  obtain s where s: "s \<in> set SKIP_DEPTHS" "unat s = 4 ^ k" using power_in_SKIP_DEPTHS [OF k(1)] by blast
  have "s \<le> depth" using k(3) s(2) by (simp add: word_le_nat_alt)
  then have "unat e = unat (depth - s)" using k(4) s(2) by (simp add: unat_diff_of_le)
  then have "e = depth - s" by (simp add: word_unat_eq_iff)
  with s k show "e \<in> set (skip_ancestor_depths unq depth)"
    unfolding set_skip_ancestor_depths [OF assms] by auto
qed

text \<open>\<open>insert\<close> asks for exactly these depths.\<close>

lemma skip_depths_due_skips:
  assumes "unique_spec unq"
  shows "unat ` set (skip_ancestor_depths unq depth) = set (due_skips (unat depth))" (is "?l = ?r")
proof (rule set_eqI)
  fix x
  show "x \<in> ?l \<longleftrightarrow> x \<in> ?r"
  proof
    assume "x \<in> ?l"
    then show "x \<in> ?r" using skip_depths_nat [OF assms] by (auto simp: in_due_skips)
  next
    assume "x \<in> ?r"
    then have "unat (of_nat x :: usize) = x" "x \<in> ?r"
      by (auto simp: in_due_skips intro: le_unat_uoi [of _ depth])
    then show "x \<in> ?l" using skip_depths_nat [OF assms, of "of_nat x" depth]
      by (intro image_eqI [of _ _ "of_nat x"]) (auto simp: in_due_skips)
  qed
qed

lemma min_by_depth_le: "fst (min_by_depth x y) \<le> fst x" "fst (min_by_depth x y) \<le> fst y"
proof -
  obtain a i b j where "x = (a, i)" "y = (b, j)" by (metis surj_pair)
  then show "fst (min_by_depth x y) \<le> fst x" "fst (min_by_depth x y) \<le> fst y"
    by (cases "b < a"; simp)+
qed

lemma foldl_min_le: "x \<in> set (y # ys) \<Longrightarrow> fst (foldl min_by_depth y ys) \<le> fst x"
proof (induction ys arbitrary: x y)
  case (Cons z zs)
  let ?m = "min_by_depth y z"
  note le = min_by_depth_le [of y z]
  have head: "fst (foldl min_by_depth ?m zs) \<le> fst ?m" by (rule Cons.IH) simp
  consider "x = y" | "x = z" | "x \<in> set zs" using Cons.prems by auto
  then show ?case
  proof cases
    case 1
    then show ?thesis using order_trans [OF head le(1)] by simp
  next
    case 2
    then show ?thesis using order_trans [OF head le(2)] by simp
  next
    case 3
    then show ?thesis using Cons.IH [of x ?m] by simp
  qed
qed simp

lemma reduce_min_le: "iter_reduce min_by_depth xs = Some z \<Longrightarrow> x \<in> set xs \<Longrightarrow> fst z \<le> fst x"
  by (cases xs) (auto intro: foldl_min_le)

lemma skips_complete_item:
  assumes "skips_complete t" "HashMap_get (mft_blocks t) i = Some it"
  shows "(\<lambda>(e, _). unat e) ` set (item_ancestors it) = set (due_skips (unat (item_depth it)))"
  using assms(1) map_of_SomeD [OF assms(2)] unfolding skips_complete_def by (simp only: set_map) blast

lemma skip_available:
  assumes "(\<lambda>(e, _). unat e) ` set (item_ancestors it) = set (due_skips (unat (item_depth it)))"
    and j: "1 \<le> j" "j \<le> 16" "4 ^ j dvd unat (item_depth it)" "4 ^ j \<le> unat (item_depth it) - unat d"
  shows "\<exists>e a. (e, a) \<in> set (filter (\<lambda>(e, _). e \<ge> d) (item_ancestors it)) \<and>
    unat e = unat (item_depth it) - 4 ^ j"
proof -
  have "unat (item_depth it) - 4 ^ j \<in> set (due_skips (unat (item_depth it)))"
    using j unfolding in_due_skips by (intro bexI [of _ j]) auto
  then obtain e a where "(e, a) \<in> set (item_ancestors it)" "unat e = unat (item_depth it) - 4 ^ j"
    unfolding assms(1) [symmetric] by auto
  moreover have "0 < (4::nat) ^ j" by simp
  then have "unat d < unat (item_depth it)" using j(4) by linarith
  ultimately show ?thesis using j(4) by (intro exI [of _ e] exI [of _ a]) (simp add: word_le_nat_alt)
qed

lemma jump_level_min:
  assumes "(\<lambda>(e, _). unat e) ` set (item_ancestors it) = set (due_skips (unat (item_depth it)))"
    and k: "k \<le> 16" "4 ^ k dvd unat (item_depth it)" "4 ^ k \<le> unat (item_depth it) - unat d"
    and least: "\<And>e a. (e, a) \<in> set (filter (\<lambda>(e, _). e \<ge> d) (item_ancestors it)) \<Longrightarrow>
      unat (item_depth it) - 4 ^ k \<le> unat e"
  shows "jump_level (unat (item_depth it)) (unat d) k"
  unfolding jump_level_def
proof (intro conjI allI impI k)
  fix j assume j: "j \<le> 16" "4 ^ j dvd unat (item_depth it)" "4 ^ j \<le> unat (item_depth it) - unat d"
  show "j \<le> k"
  proof (cases "j = 0")
    case False
    then obtain e a where e: "(e, a) \<in> set (filter (\<lambda>(e, _). e \<ge> d) (item_ancestors it))"
      "unat e = unat (item_depth it) - 4 ^ j"
      using skip_available [OF assms(1) _ j] by auto
    have "unat (item_depth it) - 4 ^ k \<le> unat (item_depth it) - 4 ^ j" using least [OF e(1)] e(2) by simp
    then have "(4::nat) ^ j \<le> 4 ^ k" using j(3) by linarith
    then show ?thesis using power_le_imp_le_exp [of "4 :: nat" j k] by simp
  qed simp
qed

text \<open>A round of the loop jumps as \<open>jump_level\<close> says.\<close>

lemma next_ancestor_jump:
  assumes wf: "wf_tree I t" and sk: "skips_complete t" and it: "HashMap_get (mft_blocks t) i = Some it"
    and d: "d < item_depth it" and p: "block_parent_id I (item_block it) = Some p"
  shows "\<exists>k nit. jump_level (unat (item_depth it)) (unat d) k \<and>
    HashMap_get (mft_blocks t) (next_ancestor_id it d p) = Some nit \<and>
    unat (item_depth nit) = unat (item_depth it) - 4 ^ k"
proof -
  let ?n = "unat (item_depth it)" and ?xs = "filter (\<lambda>(e, _). e \<ge> d) (item_ancestors it)"
  have dn: "unat d < ?n" using d by (simp add: word_less_nat_alt)
  have fst: "(\<lambda>(e, _). unat e) ` set (item_ancestors it) = set (due_skips ?n)"
    using sk it by (rule skips_complete_item)
  have ok: "item_ok I t i it" using wf it by (rule wf_tree_item)
  show ?thesis
  proof (cases "iter_reduce min_by_depth ?xs")
    case None
    then have empty: "?xs = []" by (cases ?xs) auto
    have "jump_level ?n (unat d) 0" by (rule jump_level_min [OF fst]) (use dn empty in auto)
    moreover obtain pit where "HashMap_get (mft_blocks t) p = Some pit" "?n = Suc (unat (item_depth pit))"
      using ok p by (auto simp: item_ok_def split: option.splits)
    ultimately show ?thesis using None by (intro exI [of _ 0] exI [of _ pit]) (simp add: next_ancestor_id_def)
  next
    case (Some z)
    obtain e a where z: "z = (e, a)" by fastforce
    have mem: "(e, a) \<in> set ?xs" using iter_reduce_in [OF min_by_depth_choice Some] z by simp
    then have ea: "(e, a) \<in> set (item_ancestors it)" "d \<le> e" by auto
    then have "unat e \<in> set (due_skips ?n)" unfolding fst [symmetric] by force
    then obtain k where k: "k \<in> {1..16}" "4 ^ k dvd ?n" "4 ^ k \<le> ?n" "unat e = ?n - 4 ^ k"
      unfolding in_due_skips by blast
    have "jump_level ?n (unat d) k"
    proof (rule jump_level_min [OF fst])
      show "4 ^ k \<le> ?n - unat d" using k(3,4) ea(2) by (simp add: word_le_nat_alt)
      show "?n - 4 ^ k \<le> unat e'" if "(e', a') \<in> set ?xs" for e' a'
        using reduce_min_le [OF Some that] z k(4) by (simp add: word_le_nat_alt)
    qed (use k in auto)
    moreover have "e < item_depth it" "climb (parent_of I t) (?n - unat e) i = Some a"
      using ok ea(1) by (auto simp: item_ok_def)
    moreover have "MemoryForkTree_block_depth t i = Ok (item_depth it)" using it by (simp add: block_depth_eq_Ok)
    ultimately obtain f where "MemoryForkTree_block_depth t a = Ok f" "?n = unat f + (?n - unat e)"
      using mft.climb_depth [OF wf, simplified] by blast
    then obtain nit where "HashMap_get (mft_blocks t) a = Some nit" "unat (item_depth nit) = ?n - 4 ^ k"
      using k(3,4) by (auto simp: block_depth_eq_Ok)
    with \<open>jump_level ?n (unat d) k\<close> Some z show ?thesis
      by (intro exI [of _ k] exI [of _ nit]) (simp add: next_ancestor_id_def)
  qed
qed

section \<open>Rounds of the loop\<close>

text \<open>The loop of \<open>ancestor_id_at_depth\<close> with a bound on the number of blocks it looks at.\<close>

primrec ancestor_rounds ::
  "nat \<Rightarrow> ('b, 'id) Identified \<Rightarrow> ('b, 'id) MemoryForkTree \<Rightarrow> ('b, 'id) MemoryForkTreeItem \<Rightarrow> usize \<Rightarrow>
     ('id, MemoryForkTreeQueryError) Result option" where
  "ancestor_rounds 0 I t current_block ancestor_depth = None"
| "ancestor_rounds (Suc n) I t current_block ancestor_depth =
     (if item_depth current_block < ancestor_depth then Some (Err InvalidAncestorDepth)
      else if item_depth current_block = ancestor_depth
        then Some (Ok (block_id I (item_block current_block)))
      else case block_parent_id I (item_block current_block) of
        None \<Rightarrow> Some (Err InvalidAncestorDepth)
      | Some parent_id \<Rightarrow>
          (case HashMap_get (mft_blocks t)
                  (next_ancestor_id current_block ancestor_depth parent_id) of
             None \<Rightarrow> Some (Err UnknownBlock)
           | Some next_block \<Rightarrow> ancestor_rounds n I t next_block ancestor_depth))"

lemma rounds_loop: "ancestor_rounds n I t it d = Some r \<Longrightarrow> ancestor_loop I t it d = Some r"
proof (induction n arbitrary: it)
  case (Suc n)
  then show ?case by (subst ancestor_loop_unfold) (auto split: option.splits if_splits)
qed simp

lemma rounds_more: "ancestor_rounds n I t it d = Some r \<Longrightarrow> n \<le> m \<Longrightarrow> ancestor_rounds m I t it d = Some r"
proof (induction n arbitrary: it m)
  case (Suc n)
  then obtain m' where m: "m = Suc m'" "n \<le> m'" by (cases m) auto
  with Suc show ?case by (auto split: option.splits if_splits)
qed simp

lemma descends_rounds:
  assumes wf: "wf_tree I t" and sk: "skips_complete t" and ds: "descends (unat d) n m"
  shows "HashMap_get (mft_blocks t) i = Some it \<Longrightarrow> unat (item_depth it) = n \<Longrightarrow>
    \<exists>a. ancestor_rounds (Suc m) I t it d = Some (Ok a)"
  using ds
proof (induction arbitrary: i it)
  case descends_done
  then have "item_depth it = d" by (simp add: word_unat_eq_iff)
  then show ?case by simp
next
  case (descends_jump n k m)
  have lt: "d < item_depth it" using descends_jump.hyps(1) descends_jump.prems(2) by (simp add: word_less_nat_alt)
  then have "item_depth it \<noteq> 0" by auto
  then obtain p where p: "block_parent_id I (item_block it) = Some p"
    using wf_tree_item [OF wf descends_jump.prems(1)] by (auto simp: item_ok_def split: option.splits)
  obtain j nit where nit: "jump_level n (unat d) j"
    "HashMap_get (mft_blocks t) (next_ancestor_id it d p) = Some nit" "unat (item_depth nit) = n - 4 ^ j"
    using next_ancestor_jump [OF wf sk descends_jump.prems(1) lt p] descends_jump.prems(2) by blast
  have "j = k" using nit(1) descends_jump.hyps(2) by (auto simp: jump_level_def intro: le_antisym)
  with nit(3) have "unat (item_depth nit) = n - 4 ^ k" by simp
  from descends_jump.IH [OF nit(2) this] obtain a where "ancestor_rounds (Suc m) I t nit d = Some (Ok a)" by blast
  moreover have "\<not> item_depth it < d" "item_depth it \<noteq> d" using lt by auto
  ultimately show ?case using p nit(2) by (simp del: ancestor_rounds.simps add: ancestor_rounds.simps(2) [of "Suc m"])
qed

section \<open>Properties\<close>

lemma due_skips_small: "due_skips 0 = []" "due_skips 1 = []" "due_skips 2 = []" "due_skips 3 = []"
  "due_skips 4 = [0]" "due_skips 5 = []"
proof -
  have "[1..<17] = [1, 2, 3, 4, 5, 6, 7, 8, 9, 10, 11, 12, 13, 14, 15, 16]" by code_simp
  then show "due_skips 0 = []" "due_skips 1 = []" "due_skips 2 = []" "due_skips 3 = []"
    "due_skips 4 = [0]" "due_skips 5 = []" unfolding due_skips_def by (simp_all del: upt_conv_Nil)
qed

lemma deep_tree_skips: "skips_complete deep_tree"
  unfolding skips_complete_def
  by (simp add: deep_tree_def chain_item_def due_skips_small due_skips_small [unfolded One_nat_def])

text \<open>C17. Cost of the search: when every block has the skip list due at its depth, which is the one
  \<open>insert\<close> asks for, the loop finds an ancestor that is less than \<open>4 ^ K\<close> generations away after
  looking at no more than \<open>6 * K + 1\<close> blocks, for \<open>K\<close> up to 17, that is for every distance below
  \<open>2 ^ 34\<close>: logarithmic instead of linear.\<close>

theorem search_rounds_logarithmic:
  assumes "wf_tree I t" "skips_complete t" "HashMap_get (mft_blocks t) i = Some it"
    and "d \<le> item_depth it" "unat (item_depth it) - unat d < 4 ^ K" "K \<le> 17" "unique_spec unq"
  shows "(\<exists>a. ancestor_rounds (6 * K + 1) I t it d = Some (Ok a) \<and> ancestor_loop I t it d = Some (Ok a)) \<and>
    unat ` set (skip_ancestor_depths unq (item_depth it)) = unat ` fst ` set (item_ancestors it)"
proof -
  obtain m where m: "m \<le> 6 * K" "descends (unat d) (unat (item_depth it)) m"
    using descend_bound [of K "unat d" "unat (item_depth it)"] assms(4-6) by (auto simp: word_le_nat_alt)
  from descends_rounds [OF assms(1,2) m(2) assms(3) refl]
  obtain a where a: "ancestor_rounds (Suc m) I t it d = Some (Ok a)" by blast
  have r: "ancestor_rounds (6 * K + 1) I t it d = Some (Ok a)" by (rule rounds_more [OF a]) (use m(1) in simp)
  have "unat ` fst ` set (item_ancestors it) = set (due_skips (unat (item_depth it)))"
    using skips_complete_item [OF assms(2,3)] by (simp add: image_image case_prod_beta)
  with r rounds_loop [OF r] skip_depths_due_skips [OF assms(7)] show ?thesis by blast
qed

theorem search_rounds_logarithmic_witness:
  "(\<exists>a. ancestor_rounds 13 pair_ident deep_tree (chain_item 4 [(0, 0)]) 0 = Some (Ok a) \<and>
      ancestor_loop pair_ident deep_tree (chain_item 4 [(0, 0)]) 0 = Some (Ok a)) \<and>
   unat ` set (skip_ancestor_depths unique_first 4) = {0}"
proof -
  have "HashMap_get (mft_blocks deep_tree) 4 = Some (chain_item 4 [(0, 0)])" by code_simp
  from search_rounds_logarithmic [OF wf_deep_tree deep_tree_skips this _ _ _ unique_first_spec, of 0 2]
  show ?thesis by (simp add: chain_item_def del: ancestor_rounds.simps)
qed

end
