(* ===== verification/FlatState.thy ===== *)
theory FlatState
  imports ForkTree
begin

text \<open>
  The traits and the overlay of \<open>blockchain/src/state.rs\<close>.

  \<open>trait FlatState\<close> is the record of its method \<open>get\<close>; \<open>OverlayedFlatState\<close> is a base
  state seen at one block, with a changeset on top. The overlay's operations are defined for
  any flat state.

  \<open>first_write\<close> is the abstract meaning of a flat state: the value of a key at a block is the
  last write on the path from the root to that block, found by climbing from the block.

  The locale \<open>flat_state_mut\<close> is the contract between a mutable flat state and the overlay
  that builds its changesets.
\<close>

record ('fs, 'ft, 'k, 'v, 'id, 'e) FlatState =
  fs_get :: "'fs \<Rightarrow> 'k \<Rightarrow> 'id \<Rightarrow> 'ft \<Rightarrow> ('v option, 'e) Result"

text \<open>\<open>trait FlatStateMut\<close> and \<open>trait FlatStateTransactional\<close>, each with the dictionary of its
  supertrait; the iterator over the changeset is the list of its items.\<close>

record ('fs, 'ft, 'k, 'v, 'id, 'e, 'ae) FlatStateMut =
  fsm_flat_state :: "('fs, 'ft, 'k, 'v, 'id, 'e) FlatState"
  fsm_apply :: "'fs \<Rightarrow> ('k \<times> 'v option) list \<Rightarrow> 'id \<Rightarrow> 'ft \<Rightarrow> (unit, 'ae) Result \<times> 'fs"

record ('fs, 'ft, 'k, 'v, 'id, 'e, 'tx, 'ae) FlatStateTransactional =
  fst_flat_state :: "('fs, 'ft, 'k, 'v, 'id, 'e) FlatState"
  fst_apply :: "'fs \<Rightarrow> 'tx \<Rightarrow> ('k \<times> 'v option) list \<Rightarrow> 'id \<Rightarrow> 'ft \<Rightarrow> (unit, 'ae) Result \<times> 'tx"

record ('fs, 'ft, 'id, 'k, 'v) OverlayedFlatState =
  ov_flat_state :: 'fs
  ov_fork_tree :: 'ft
  ov_block_id :: 'id
  ov_changeset :: "('k, 'v option) HashMap"

text \<open>The default method \<open>FlatState::overlayed\<close>.\<close>

definition FlatState_overlayed ::
  "'fs \<Rightarrow> 'id \<Rightarrow> 'ft \<Rightarrow> ('fs, 'ft, 'id, 'k, 'v) OverlayedFlatState" where
  "FlatState_overlayed fs i ft =
     \<lparr>ov_flat_state = fs, ov_fork_tree = ft, ov_block_id = i, ov_changeset = []\<rparr>"

definition OverlayedFlatState_get ::
  "('fs, 'ft, 'k, 'v, 'id, 'e) FlatState \<Rightarrow> ('fs, 'ft, 'id, 'k, 'v) OverlayedFlatState \<Rightarrow> 'k \<Rightarrow>
     ('v option, 'e) Result" where
  "OverlayedFlatState_get S ov key =
     (case HashMap_get (ov_changeset ov) key of
        Some v \<Rightarrow> Ok v
      | None \<Rightarrow> fs_get S (ov_flat_state ov) key (ov_block_id ov) (ov_fork_tree ov))"

definition OverlayedFlatState_insert ::
  "'k \<Rightarrow> 'v \<Rightarrow> ('fs, 'ft, 'id, 'k, 'v) OverlayedFlatState \<Rightarrow>
     ('fs, 'ft, 'id, 'k, 'v) OverlayedFlatState" where
  "OverlayedFlatState_insert key v ov =
     ov\<lparr>ov_changeset := HashMap_insert key (Some v) (ov_changeset ov)\<rparr>"

definition OverlayedFlatState_remove ::
  "'k \<Rightarrow> ('fs, 'ft, 'id, 'k, 'v) OverlayedFlatState \<Rightarrow>
     ('fs, 'ft, 'id, 'k, 'v) OverlayedFlatState" where
  "OverlayedFlatState_remove key ov =
     ov\<lparr>ov_changeset := HashMap_insert key None (ov_changeset ov)\<rparr>"

definition OverlayedFlatState_into_changeset ::
  "('fs, 'ft, 'id, 'k, 'v) OverlayedFlatState \<Rightarrow> ('k \<times> 'v option) list" where
  "OverlayedFlatState_into_changeset ov = ov_changeset ov"

section \<open>The meaning of a flat state\<close>

primrec first_write :: "('id \<Rightarrow> 'v option option) \<Rightarrow> ('id \<Rightarrow> 'id option) \<Rightarrow> nat \<Rightarrow> 'id \<Rightarrow> 'v option" where
  "first_write w par 0 i = (case w i of None \<Rightarrow> None | Some v \<Rightarrow> v)"
| "first_write w par (Suc n) i =
     (case w i of
        Some v \<Rightarrow> v
      | None \<Rightarrow> (case par i of None \<Rightarrow> None | Some j \<Rightarrow> first_write w par n j))"

lemma first_write_found:
  assumes "climb par n i = Some s" "w s = Some v" "n \<le> N"
    and "\<And>m s'. m < n \<Longrightarrow> climb par m i = Some s' \<Longrightarrow> w s' = None"
  shows "first_write w par N i = v"
  using assms
proof (induction n arbitrary: i N)
  case 0
  then show ?case by (cases N) auto
next
  case (Suc n)
  then obtain j where j: "par i = Some j" "climb par n j = Some s" by (auto split: option.splits)
  obtain M where M: "N = Suc M" "n \<le> M" using Suc.prems(3) by (cases N) auto
  have "first_write w par M j = v"
  proof (rule Suc.IH [OF j(2) Suc.prems(2) M(2)])
    show "w s' = None" if "m < n" "climb par m j = Some s'" for m s'
      using Suc.prems(4) [of "Suc m" s'] that j by simp
  qed
  moreover have "w i = None" using Suc.prems(4) [of 0 i] by simp
  ultimately show ?case using j M by simp
qed

lemma first_write_none:
  assumes "\<And>m s. m \<le> N \<Longrightarrow> climb par m i = Some s \<Longrightarrow> w s = None"
  shows "first_write w par N i = None"
  using assms
proof (induction N arbitrary: i)
  case 0
  then show ?case using "0" [of 0 i] by simp
next
  case (Suc N)
  have "w i = None" using Suc.prems [of 0 i] by simp
  moreover have "first_write w par N j = None" if "par i = Some j" for j
    using Suc.prems [of "Suc m" s for m s] that by (intro Suc.IH) auto
  ultimately show ?case by (auto split: option.splits)
qed

lemma first_write_parent:
  "w i = None \<Longrightarrow> par i = Some j \<Longrightarrow> first_write w par (Suc n) i = first_write w par n j"
  by simp

section \<open>The overlay\<close>

text \<open>Reading through the overlay after a write sees the write; other keys are unaffected.\<close>

lemma overlay_get_insert:
  "OverlayedFlatState_get S (OverlayedFlatState_insert k v ov) k' =
     (if k' = k then Ok (Some v) else OverlayedFlatState_get S ov k')"
  by (simp add: OverlayedFlatState_get_def OverlayedFlatState_insert_def map_simps split: option.split)

lemma overlay_get_remove:
  "OverlayedFlatState_get S (OverlayedFlatState_remove k ov) k' =
     (if k' = k then Ok None else OverlayedFlatState_get S ov k')"
  by (simp add: OverlayedFlatState_get_def OverlayedFlatState_remove_def map_simps split: option.split)

lemma overlay_changeset_distinct:
  "HashMap_invar (ov_changeset (FlatState_overlayed fs i ft))"
  "HashMap_invar (ov_changeset ov) \<Longrightarrow> HashMap_invar (ov_changeset (OverlayedFlatState_insert k v ov))"
  "HashMap_invar (ov_changeset ov) \<Longrightarrow> HashMap_invar (ov_changeset (OverlayedFlatState_remove k ov))"
  by (simp_all add: FlatState_overlayed_def OverlayedFlatState_insert_def
      OverlayedFlatState_remove_def distinct_update)

lemma map_of_rev_distinct: "HashMap_invar m \<Longrightarrow> map_of (rev m) = map_of m"
  by (intro map_of_eqI) (auto simp: rev_map [symmetric] map_of_eq_Some_iff)

locale flat_state_mut =
  fixes D :: "('fs, 'ft, 'k, 'v, 'id, 'e, 'ae) FlatStateMut"
    and ready :: "'ft \<Rightarrow> 'fs \<Rightarrow> 'id \<Rightarrow> bool"
  assumes read_own_write:
    "ready ft fs i \<Longrightarrow> map_of (rev cs) k = Some v \<Longrightarrow>
       fs_get (fsm_flat_state D) (snd (fsm_apply D fs cs i ft)) k i ft = Ok v"
begin

text \<open>Committing an overlay makes its own writes readable at the block.\<close>

lemma overlay_commit:
  assumes "ready ft fs i" "HashMap_invar (ov_changeset ov)"
    and "HashMap_get (ov_changeset ov) k = Some v"
  shows "fs_get (fsm_flat_state D) (snd (fsm_apply D fs (OverlayedFlatState_into_changeset ov) i ft)) k i ft =
    OverlayedFlatState_get (fsm_flat_state D) ov k"
  using assms
  by (simp add: OverlayedFlatState_into_changeset_def OverlayedFlatState_get_def
      read_own_write map_of_rev_distinct)

end

end
