(* ===== verification/MemoryFlatState.thy ===== *)
theory MemoryFlatState
  imports FlatState
begin

text \<open>
  \<open>MemoryFlatState\<close> of \<open>blockchain/src/memory/state.rs\<close>: per key, a map from depth to the
  writes made at that depth, by block.

  \<open>MemoryFlatState_get\<close> searches the depths at or below the block's own, deepest first
  (\<open>search_range\<close>, the outer loop), and at each depth the blocks that wrote there
  (\<open>search_ids\<close>, the inner loop), for a block that is an ancestor. Both stop at the first hit
  and at the first failed query. The code is generic over the fork tree, whose methods are the
  argument \<open>F\<close>.

  \<open>state_ok\<close> is its invariant relative to a fork tree: every write is filed under the depth of
  its block. \<open>write_of\<close> is the write of one block to one key.
\<close>

record ('k, 'v, 'id) MemoryFlatState =
  mfs_state :: "('k, (usize, ('id, 'v option) HashMap) BTreeMap) HashMap"

definition MemoryFlatState_new :: "('k, 'v, 'id) MemoryFlatState" where
  "MemoryFlatState_new = \<lparr>mfs_state = []\<rparr>"

fun search_ids ::
  "('id \<Rightarrow> (bool, 'e) Result) \<Rightarrow> ('id \<times> 'v option) list \<Rightarrow> ('v option option, 'e) Result" where
  "search_ids is_anc [] = Ok None"
| "search_ids is_anc ((search_id, search_value) # rest) =
     and_then (is_anc search_id) (\<lambda>hit.
       if hit then Ok (Some search_value) else search_ids is_anc rest)"

fun search_range ::
  "('id \<Rightarrow> (bool, 'e) Result) \<Rightarrow> (usize \<times> ('id \<times> 'v option) list) list \<Rightarrow>
     ('v option option, 'e) Result" where
  "search_range is_anc [] = Ok None"
| "search_range is_anc ((_, search_id_to_value) # rest) =
     and_then (search_ids is_anc search_id_to_value) (\<lambda>r.
       case r of Some v \<Rightarrow> Ok (Some v) | None \<Rightarrow> search_range is_anc rest)"

definition MemoryFlatState_get ::
  "('t, 'b, 'id, 'qe) ForkTree \<Rightarrow> ('k, 'v, 'id) MemoryFlatState \<Rightarrow> 'k \<Rightarrow> 'id \<Rightarrow> 't \<Rightarrow>
     ('v option, 'qe) Result" where
  "MemoryFlatState_get F fs key i ft =
     (case HashMap_get (mfs_state fs) key of
        None \<Rightarrow> Ok None
      | Some depth_to_id_value \<Rightarrow>
          and_then (ft_block_depth F ft i) (\<lambda>depth.
          and_then (search_range (ForkTree_is_ancestor F ft i)
                     (BTreeMap_range_to_rev depth depth_to_id_value)) (\<lambda>r.
          Ok (case r of Some v \<Rightarrow> v | None \<Rightarrow> None))))"

definition write_entry ::
  "usize \<Rightarrow> 'id \<Rightarrow> 'k \<times> 'v option \<Rightarrow>
     ('k, (usize, ('id, 'v option) HashMap) BTreeMap) HashMap \<Rightarrow>
     ('k, (usize, ('id, 'v option) HashMap) BTreeMap) HashMap" where
  "write_entry depth i kv st =
     HashMap_entry (fst kv) [] (BTreeMap_entry depth [] (HashMap_insert i (snd kv))) st"

definition MemoryFlatState_apply ::
  "('t, 'b, 'id, 'qe) ForkTree \<Rightarrow> ('k, 'v, 'id) MemoryFlatState \<Rightarrow> ('k \<times> 'v option) list \<Rightarrow> 'id \<Rightarrow> 't \<Rightarrow>
     (unit, 'qe) Result \<times> ('k, 'v, 'id) MemoryFlatState" where
  "MemoryFlatState_apply F fs changeset i ft =
     (case ft_block_depth F ft i of
        Err e \<Rightarrow> (Err e, fs)
      | Ok depth \<Rightarrow> (Ok (), fs\<lparr>mfs_state := fold (write_entry depth i) changeset (mfs_state fs)\<rparr>))"

definition MemoryFlatState_FlatState ::
  "('t, 'b, 'id, 'qe) ForkTree \<Rightarrow>
     (('k, 'v, 'id) MemoryFlatState, 't, 'k, 'v, 'id, 'qe) FlatState" where
  "MemoryFlatState_FlatState F = \<lparr>fs_get = MemoryFlatState_get F\<rparr>"

definition MemoryFlatState_FlatStateMut ::
  "('t, 'b, 'id, 'qe) ForkTree \<Rightarrow>
     (('k, 'v, 'id) MemoryFlatState, 't, 'k, 'v, 'id, 'qe, 'qe) FlatStateMut" where
  "MemoryFlatState_FlatStateMut F =
     \<lparr>fsm_flat_state = MemoryFlatState_FlatState F, fsm_apply = MemoryFlatState_apply F\<rparr>"

section \<open>Invariant and writes\<close>

definition written ::
  "('k, 'v, 'id) MemoryFlatState \<Rightarrow> 'k \<Rightarrow> usize \<Rightarrow> 'id \<Rightarrow> 'v option option" where
  "written fs k d i =
     Option.bind (HashMap_get (mfs_state fs) k) (\<lambda>m.
     Option.bind (BTreeMap_get m d) (\<lambda>ids. HashMap_get ids i))"

definition write_of ::
  "('t, 'b, 'id, 'qe) ForkTree \<Rightarrow> 't \<Rightarrow> ('k, 'v, 'id) MemoryFlatState \<Rightarrow> 'k \<Rightarrow> 'id \<Rightarrow> 'v option option" where
  "write_of F t fs k i =
     (case ft_block_depth F t i of Err _ \<Rightarrow> None | Ok d \<Rightarrow> written fs k d i)"

definition ids_ok ::
  "('t, 'b, 'id, 'qe) ForkTree \<Rightarrow> 't \<Rightarrow> usize \<Rightarrow> ('id, 'v option) HashMap \<Rightarrow> bool" where
  "ids_ok F t d ids \<longleftrightarrow>
     HashMap_invar ids \<and>
     (\<forall>(i, v) \<in> set ids. case ft_block_depth F t i of Err _ \<Rightarrow> False | Ok e \<Rightarrow> e = d)"

definition depths_ok ::
  "('t, 'b, 'id, 'qe) ForkTree \<Rightarrow> 't \<Rightarrow> (usize, ('id, 'v option) HashMap) BTreeMap \<Rightarrow> bool" where
  "depths_ok F t m \<longleftrightarrow> BTreeMap_invar m \<and> (\<forall>(d, ids) \<in> set m. ids_ok F t d ids)"

definition state_ok ::
  "('t, 'b, 'id, 'qe) ForkTree \<Rightarrow> 't \<Rightarrow> ('k, 'v, 'id) MemoryFlatState \<Rightarrow> bool" where
  "state_ok F t fs \<longleftrightarrow>
     HashMap_invar (mfs_state fs) \<and> (\<forall>(k, m) \<in> set (mfs_state fs). depths_ok F t m)"

lemma ids_ok_depth:
  "ids_ok F t d ids \<Longrightarrow> (i, v) \<in> set ids \<Longrightarrow> ft_block_depth F t i = Ok d"
  by (fastforce simp: ids_ok_def split: Result.splits)

lemma ids_ok_Nil [simp]: "ids_ok F t d []"
  by (simp add: ids_ok_def)

lemma ids_ok_insert:
  assumes "ids_ok F t d ids" "ft_block_depth F t i = Ok d"
  shows "ids_ok F t d (HashMap_insert i v ids)"
proof -
  have "set (HashMap_insert i v ids) \<subseteq> insert (i, v) (set ids)"
    by (induction ids) auto
  with assms show ?thesis by (fastforce simp: ids_ok_def distinct_update)
qed

lemma depths_ok_get: "depths_ok F t m \<Longrightarrow> BTreeMap_get m d = Some ids \<Longrightarrow> ids_ok F t d ids"
  by (auto simp: depths_ok_def dest: map_of_SomeD)

lemma depths_ok_Nil [simp]: "depths_ok F t []"
  by (simp add: depths_ok_def)

lemma set_BTreeMap_insert: "set (BTreeMap_insert k v m) \<subseteq> insert (k, v) (set m)"
  by (induction k v m rule: BTreeMap_insert.induct) auto

lemma depths_ok_entry:
  assumes "depths_ok F t m" "ft_block_depth F t i = Ok d"
  shows "depths_ok F t (BTreeMap_entry d [] (HashMap_insert i v) m)"
proof -
  have "ids_ok F t d (case BTreeMap_get m d of None \<Rightarrow> [] | Some ids \<Rightarrow> ids)"
    using depths_ok_get [OF assms(1)] by (auto split: option.splits)
  then have "ids_ok F t d (HashMap_insert i v (case BTreeMap_get m d of None \<Rightarrow> [] | Some ids \<Rightarrow> ids))"
    using assms(2) by (rule ids_ok_insert)
  with assms(1) show ?thesis
    using set_BTreeMap_insert
    by (fastforce simp: depths_ok_def entry_or_def BTreeMap_invar_insert)
qed

lemma state_ok_get: "state_ok F t fs \<Longrightarrow> HashMap_get (mfs_state fs) k = Some m \<Longrightarrow> depths_ok F t m"
  by (auto simp: state_ok_def dest: map_of_SomeD)

lemma state_ok_new: "state_ok F t MemoryFlatState_new"
  by (simp add: state_ok_def MemoryFlatState_new_def)

definition store_ok where
  "store_ok F t st \<longleftrightarrow> state_ok F t \<lparr>mfs_state = st\<rparr>"

lemma store_ok_write_entry:
  assumes "store_ok F t st" "ft_block_depth F t i = Ok d"
  shows "store_ok F t (write_entry d i kv st)"
proof -
  let ?m = "case HashMap_get st (fst kv) of None \<Rightarrow> [] | Some m \<Rightarrow> m"
  have "depths_ok F t ?m"
    using assms(1) state_ok_get [of F t "\<lparr>mfs_state = st\<rparr>" "fst kv"]
    by (auto simp: store_ok_def split: option.splits)
  then have "depths_ok F t (BTreeMap_entry d [] (HashMap_insert i (snd kv)) ?m)"
    using assms(2) by (rule depths_ok_entry)
  moreover have "set (HashMap_insert k x st) \<subseteq> insert (k, x) (set st)" for k x
    by (induction st) auto
  ultimately show ?thesis
    using assms(1)
    by (fastforce simp: store_ok_def state_ok_def write_entry_def entry_or_def [of HashMap_get] distinct_update)
qed

lemma store_ok_fold:
  "store_ok F t st \<Longrightarrow> ft_block_depth F t i = Ok d \<Longrightarrow> store_ok F t (fold (write_entry d i) cs st)"
  by (induction cs arbitrary: st) (simp_all add: store_ok_write_entry)

lemma state_ok_apply:
  assumes "state_ok F t fs"
  shows "state_ok F t (snd (MemoryFlatState_apply F fs cs i t))"
proof (cases "ft_block_depth F t i")
  case (Ok d)
  have "store_ok F t (mfs_state fs)" using assms by (simp add: store_ok_def state_ok_def)
  from store_ok_fold [OF this Ok, of cs] Ok show ?thesis
    by (simp add: MemoryFlatState_apply_def store_ok_def state_ok_def)
qed (use assms in \<open>simp add: MemoryFlatState_apply_def\<close>)

end
