(* ===== verification/MemoryFlatStateReads.thy ===== *)
theory MemoryFlatStateReads
  imports MemoryFlatState MemoryForkTree
begin

text \<open>
  What \<open>MemoryFlatState_get\<close> and \<open>MemoryFlatState_apply\<close> (\<open>blockchain/src/memory/state.rs\<close>)
  compute, proved once for every fork tree that satisfies the contract \<open>fork_tree\<close> (an answer
  is right, a block sees its own writes, a write disturbs no block outside its subtree) and once
  more for every complete one (there is always an answer, and an overlay committed at a child
  block reads back as the overlay).
\<close>

section \<open>The two loops\<close>

lemma search_ids_None:
  "search_ids f ids = Ok None \<longleftrightarrow> (\<forall>(s, v) \<in> set ids. f s = Ok False)"
  by (induction f ids rule: search_ids.induct) (auto simp: and_then_eq_Ok)

lemma search_ids_Some:
  "search_ids f ids = Ok (Some v) \<Longrightarrow> \<exists>s. (s, v) \<in> set ids \<and> f s = Ok True"
  by (induction f ids rule: search_ids.induct) (auto simp: and_then_eq_Ok split: if_splits)

lemma search_ids_total:
  "\<forall>(s, v) \<in> set ids. is_ok (f s) \<Longrightarrow> \<exists>r. search_ids f ids = Ok r"
  by (induction f ids rule: search_ids.induct) (auto simp: is_ok_iff)

lemma search_ids_own:
  assumes "HashMap_get ids i = Some v" "\<forall>(s, v) \<in> set ids. f s = Ok (i = s)"
  shows "search_ids f ids = Ok (Some v)"
  using assms by (induction f ids rule: search_ids.induct) (auto split: if_splits)

lemma search_ids_miss:
  "f i = Ok False \<Longrightarrow> search_ids f (HashMap_insert i v ids) = search_ids f ids"
proof (induction ids)
  case (Cons p ids)
  then show ?case by (cases p) (auto cong: if_cong)
qed simp

lemma search_range_append:
  "search_range f (xs @ ys) =
     and_then (search_range f xs) (\<lambda>r. case r of Some v \<Rightarrow> Ok (Some v) | None \<Rightarrow> search_range f ys)"
proof (induction f xs rule: search_range.induct)
  case (2 f d ids rest)
  then show ?case by (cases "search_ids f ids") (auto split: option.splits)
qed simp

lemma search_range_None:
  "search_range f ds = Ok None \<longleftrightarrow> (\<forall>(d, ids) \<in> set ds. \<forall>(s, v) \<in> set ids. f s = Ok False)"
  by (induction f ds rule: search_range.induct)
    (auto simp: and_then_eq_Ok search_ids_None [symmetric] split: option.splits)

lemma search_range_Some:
  "search_range f ds = Ok (Some v) \<Longrightarrow>
   \<exists>pre d ids post s. ds = pre @ (d, ids) # post \<and> (s, v) \<in> set ids \<and> f s = Ok True \<and>
     (\<forall>(d', ids') \<in> set pre. \<forall>(s', v') \<in> set ids'. f s' = Ok False)"
proof (induction f ds rule: search_range.induct)
  case (2 f d ids rest)
  then obtain r where r: "search_ids f ids = Ok r" by (auto simp: and_then_eq_Ok)
  show ?case
  proof (cases r)
    case None
    with 2 r obtain pre d' ids' post s where *: "rest = pre @ (d', ids') # post" "(s, v) \<in> set ids'"
      "f s = Ok True" "\<forall>(d', ids') \<in> set pre. \<forall>(s', v') \<in> set ids'. f s' = Ok False"
      by auto
    moreover have "\<forall>(s', v') \<in> set ids. f s' = Ok False"
      using r None by (simp add: search_ids_None)
    ultimately have "(d, ids) # rest = ((d, ids) # pre) @ (d', ids') # post"
      "\<forall>(d', ids') \<in> set ((d, ids) # pre). \<forall>(s', v') \<in> set ids'. f s' = Ok False" by auto
    with *(2,3) show ?thesis by blast
  next
    case (Some w)
    with 2 r have "search_ids f ids = Ok (Some v)" by simp
    from search_ids_Some [OF this] show ?thesis by fastforce
  qed
qed simp

lemma search_range_total:
  "\<forall>(d, ids) \<in> set ds. \<forall>(s, v) \<in> set ids. is_ok (f s) \<Longrightarrow> \<exists>r. search_range f ds = Ok r"
proof (induction f ds rule: search_range.induct)
  case (2 f d ids rest)
  then obtain r where "search_ids f ids = Ok r" using search_ids_total [of ids f] by auto
  with 2 show ?case by (auto split: option.splits)
qed simp

lemma range_to_rev_Cons:
  "BTreeMap_range_to_rev d ((l, w) # m) =
     BTreeMap_range_to_rev d m @ (if l \<le> d then [(l, w)] else [])"
  by (simp add: BTreeMap_range_to_rev_def)

text \<open>A write by a block that the search passes over, or below the range, changes nothing.\<close>

lemma search_range_miss:
  assumes "BTreeMap_invar m" "e \<le> d \<Longrightarrow> f i = Ok False"
  shows "search_range f (BTreeMap_range_to_rev d (BTreeMap_entry e [] (HashMap_insert i v) m)) =
    search_range f (BTreeMap_range_to_rev d m)"
  unfolding entry_or_def using assms
proof (induction m)
  case Nil
  then show ?case by (simp add: BTreeMap_range_to_rev_def)
next
  case (Cons lw m)
  obtain l w where lw: "lw = (l, w)" by (cases lw)
  have inv: "BTreeMap_invar m" using Cons.prems(1) by (simp add: BTreeMap_invar_def)
  have "map_of m e = None" if "e \<le> l"
    using Cons.prems(1) that by (fastforce simp: lw BTreeMap_invar_def map_of_eq_None_iff)
  then show ?case
    using Cons.IH [OF inv] Cons.prems(2)
    by (auto simp: lw range_to_rev_Cons search_range_append search_ids_miss
        split: option.splits cong: Result.case_cong)
qed

section \<open>Writes\<close>

lemma written_write_entry:
  assumes "state_ok F t fs"
  shows "written (fs\<lparr>mfs_state := write_entry d i kv (mfs_state fs)\<rparr>) k e j =
    (if k = fst kv \<and> e = d \<and> j = i then Some (snd kv) else written fs k e j)"
proof -
  let ?m = "case HashMap_get (mfs_state fs) (fst kv) of None \<Rightarrow> [] | Some m \<Rightarrow> m"
  let ?ids = "case BTreeMap_get ?m d of None \<Rightarrow> [] | Some ids \<Rightarrow> ids"
  have "BTreeMap_invar ?m"
    using state_ok_get [OF assms] by (auto simp: depths_ok_def split: option.splits)
  moreover have "HashMap_invar (mfs_state fs)" using assms by (simp add: state_ok_def)
  moreover have "Option.bind (BTreeMap_get ?m e) (\<lambda>ids. HashMap_get ids j) = written fs (fst kv) e j"
    by (simp add: written_def split: option.splits)
  moreover have "HashMap_get ?ids j = written fs (fst kv) d j"
    by (simp add: written_def split: option.splits)
  ultimately show ?thesis
    by (cases "k = fst kv"; cases "e = d")
      (auto simp: write_entry_def written_def [of "fs\<lparr>mfs_state := _\<rparr>"] hm.get_entry_or
        bt.get_entry_or HashMap_get_insert written_def [of fs k])
qed

lemma written_fold:
  assumes "state_ok F t fs" "ft_block_depth F t i = Ok d"
  shows "written (fs\<lparr>mfs_state := fold (write_entry d i) cs (mfs_state fs)\<rparr>) k e j =
    (if e = d \<and> j = i
     then (case map_of (rev cs) k of None \<Rightarrow> written fs k e j | Some v \<Rightarrow> Some v)
     else written fs k e j)"
  using assms(1)
proof (induction cs arbitrary: fs)
  case (Cons kv cs)
  let ?fs = "fs\<lparr>mfs_state := write_entry d i kv (mfs_state fs)\<rparr>"
  have "state_ok F t ?fs"
    using store_ok_write_entry [OF _ assms(2), of "mfs_state fs" kv] Cons.prems
    by (simp add: store_ok_def state_ok_def)
  from Cons.IH [OF this] show ?case
    by (cases kv) (auto simp: written_write_entry [OF Cons.prems] map_add_def split: option.splits)
qed simp

lemma written_apply:
  assumes "state_ok F t fs" "ft_block_depth F t i = Ok d"
  shows "written (snd (MemoryFlatState_apply F fs cs i t)) k e j =
    (if e = d \<and> j = i
     then (case map_of (rev cs) k of None \<Rightarrow> written fs k e j | Some v \<Rightarrow> Some v)
     else written fs k e j)"
  using written_fold [OF assms] assms(2) by (simp add: MemoryFlatState_apply_def)

lemma written_entry:
  "written fs k d i = Some v \<Longrightarrow>
   \<exists>m ids. HashMap_get (mfs_state fs) k = Some m \<and> (d, ids) \<in> set m \<and> (i, v) \<in> set ids"
  unfolding written_def bind_eq_Some_conv by (meson map_of_SomeD)

lemma entry_written:
  assumes "state_ok F t fs" "HashMap_get (mfs_state fs) k = Some m" "(d, ids) \<in> set m" "(i, v) \<in> set ids"
  shows "written fs k d i = Some v"
proof -
  have m: "depths_ok F t m" using assms(1,2) by (rule state_ok_get)
  then have "BTreeMap_get m d = Some ids"
    using assms(3) by (simp add: depths_ok_def BTreeMap_distinct)
  moreover from depths_ok_get [OF m this] have "HashMap_get ids i = Some v"
    using assms(4) by (simp add: ids_ok_def)
  ultimately show ?thesis using assms(2) by (simp add: written_def)
qed

section \<open>Reads over any fork tree\<close>

context fork_tree
begin

lemma is_ancestor_of_climb:
  assumes "inv t" "ft_block_depth F t i = Ok d" "climb (par t) n i = Some s"
    and "ForkTree_is_ancestor F t i s = Ok b"
  shows b
proof -
  obtain e where e: "ft_block_depth F t s = Ok e" "unat d = unat e + n"
    using climb_depth [OF assms(1-3)] by blast
  then have "e \<le> d" "unat d - unat e = n" by (simp_all add: word_le_nat_alt)
  with is_ancestor_sound [OF assms(1,2) e(1) assms(4)] assms(3) show ?thesis by simp
qed

text \<open>Every write on the path to the root lies in the searched range.\<close>

lemma write_in_range:
  assumes "inv t" "ft_block_depth F t i = Ok d" "HashMap_get (mfs_state fs) k = Some m"
    and "climb (par t) n i = Some s" "write_of F t fs k s = Some x"
  shows "\<exists>e ids. (e, ids) \<in> set (BTreeMap_range_to_rev d m) \<and> (s, x) \<in> set ids \<and> unat d = unat e + n"
proof -
  obtain e where e: "ft_block_depth F t s = Ok e" "unat d = unat e + n"
    using climb_depth [OF assms(1,2,4)] by blast
  with assms(5) have "written fs k e s = Some x" by (simp add: write_of_def)
  with assms(3) obtain ids where "(e, ids) \<in> set m" "(s, x) \<in> set ids"
    using written_entry [of fs k e s x] by auto
  moreover have "e \<le> d" using e(2) by (simp add: word_le_nat_alt)
  ultimately show ?thesis using e(2) by (auto simp: set_BTreeMap_range_to_rev)
qed

lemma missed_not_written:
  assumes "inv t" "ft_block_depth F t i = Ok d" "HashMap_get (mfs_state fs) k = Some m"
    and "climb (par t) n i = Some s"
    and "\<And>e ids x. (e, ids) \<in> set (BTreeMap_range_to_rev d m) \<Longrightarrow> (s, x) \<in> set ids \<Longrightarrow>
      unat d = unat e + n \<Longrightarrow> ForkTree_is_ancestor F t i s = Ok False"
  shows "write_of F t fs k s = None"
proof (rule ccontr)
  assume "write_of F t fs k s \<noteq> None"
  then obtain x where "write_of F t fs k s = Some x" by blast
  from write_in_range [OF assms(1-4) this] have "ForkTree_is_ancestor F t i s = Ok False"
    using assms(5) by blast
  with is_ancestor_of_climb [OF assms(1,2,4)] show False by blast
qed

text \<open>An answer is the nearest write on the path to the root.\<close>

lemma get_sound_found:
  assumes t: "inv t" and ok: "state_ok F t fs" and i: "ft_block_depth F t i = Ok d"
    and m: "HashMap_get (mfs_state fs) k = Some m"
    and r: "search_range (ForkTree_is_ancestor F t i) (BTreeMap_range_to_rev d m) = Ok (Some w)"
  shows "first_write (write_of F t fs k) (par t) (unat d) i = w"
proof -
  let ?anc = "ForkTree_is_ancestor F t i" and ?ds = "BTreeMap_range_to_rev d m"
  have mok: "depths_ok F t m" using ok m by (rule state_ok_get)
  obtain pre e ids post s where
    *: "?ds = pre @ (e, ids) # post" "(s, w) \<in> set ids" "?anc s = Ok True"
      "\<forall>(e', ids') \<in> set pre. \<forall>(s', v') \<in> set ids'. ?anc s' = Ok False"
    using search_range_Some [OF r] by blast
  have eids: "(e, ids) \<in> set m"
    using *(1) set_BTreeMap_range_to_rev [of d m] by auto
  have s: "ft_block_depth F t s = Ok e"
    using mok eids *(2) by (auto simp: depths_ok_def intro: ids_ok_depth)
  from is_ancestor_sound [OF t i s *(3)] have cl: "climb (par t) (unat d - unat e) i = Some s" by simp
  have ws: "write_of F t fs k s = Some w"
    using entry_written [OF ok m eids *(2)] s by (simp add: write_of_def)
  have above: "write_of F t fs k s' = None"
    if n: "n < unat d - unat e" and s': "climb (par t) n i = Some s'" for n s'
  proof (rule missed_not_written [OF t i m s'])
    fix e' ids' x
    assume e': "(e', ids') \<in> set ?ds" "(s', x) \<in> set ids'" "unat d = unat e' + n"
    have "e < e'" using n e'(3) by (simp add: word_less_nat_alt)
    then have "(e', ids') \<notin> set ((e, ids) # post)"
      using sorted_BTreeMap_range_to_rev [of m d] mok *(1)
      by (force simp: depths_ok_def sorted_wrt_append)
    then have "(e', ids') \<in> set pre" using e'(1) *(1) by auto
    with *(4) e'(2) show "?anc s' = Ok False" by fastforce
  qed
  show ?thesis
    by (rule first_write_found [where w = "write_of F t fs k", OF cl ws]) (use above in auto)
qed

lemma get_sound:
  assumes t: "inv t" and ok: "state_ok F t fs" and i: "ft_block_depth F t i = Ok d"
    and get: "MemoryFlatState_get F fs k i t = Ok v"
  shows "v = first_write (write_of F t fs k) (par t) (unat d) i"
proof (cases "HashMap_get (mfs_state fs) k")
  case None
  then have "write_of F t fs k s = None" for s
    by (auto simp: write_of_def written_def split: Result.splits)
  with get None show ?thesis by (simp add: MemoryFlatState_get_def first_write_none)
next
  case (Some m)
  obtain r where r: "v = (case r of Some v \<Rightarrow> v | None \<Rightarrow> None)"
    "search_range (ForkTree_is_ancestor F t i) (BTreeMap_range_to_rev d m) = Ok r"
    using get Some i by (auto simp: MemoryFlatState_get_def and_then_eq_Ok)
  show ?thesis
  proof (cases r)
    case None
    then have "ForkTree_is_ancestor F t i s = Ok False"
      if "(e, ids) \<in> set (BTreeMap_range_to_rev d m)" "(s, x) \<in> set ids" for e ids s x
      using r(2) that by (fastforce simp: search_range_None)
    with None r(1) missed_not_written [OF t i Some] show ?thesis by (simp add: first_write_none)
  qed (use r get_sound_found [OF t ok i Some] in auto)
qed

text \<open>A block reads its own writes.\<close>

lemma get_own:
  assumes t: "inv t" and ok: "state_ok F t fs" and i: "ft_block_depth F t i = Ok d"
    and w: "written fs k d i = Some v"
  shows "MemoryFlatState_get F fs k i t = Ok v"
proof -
  let ?anc = "ForkTree_is_ancestor F t i"
  obtain m ids where m: "HashMap_get (mfs_state fs) k = Some m" "BTreeMap_get m d = Some ids"
    "HashMap_get ids i = Some v"
    using w by (auto simp: written_def bind_eq_Some_conv)
  have mok: "depths_ok F t m" using ok m(1) by (rule state_ok_get)
  obtain rest where rest: "BTreeMap_range_to_rev d m = (d, ids) # rest"
  proof (cases "BTreeMap_range_to_rev d m")
    case Nil
    with m(2) set_BTreeMap_range_to_rev [of d m] show ?thesis by (auto dest: map_of_SomeD)
  next
    case (Cons p rest)
    have "(d, ids) \<in> set (BTreeMap_range_to_rev d m)"
      using m(2) by (auto simp: set_BTreeMap_range_to_rev dest: map_of_SomeD)
    moreover have "p \<in> {(k, v) \<in> set m. k \<le> d}"
      using Cons set_BTreeMap_range_to_rev [of d m] by (metis list.set_intros(1))
    then have "fst p \<le> d" by auto
    moreover have "sorted_wrt (>) (map fst (p # rest))"
      using sorted_BTreeMap_range_to_rev [of m d] mok Cons by (simp add: depths_ok_def)
    ultimately have "p = (d, ids)" using Cons by force
    with Cons that show ?thesis by simp
  qed
  have "\<forall>(s, x) \<in> set ids. ?anc s = Ok (i = s)"
    using depths_ok_get [OF mok m(2)] is_ancestor_same_depth [OF t i] ids_ok_depth by fast
  from search_ids_own [OF m(3) this] rest m(1) i show ?thesis
    by (simp add: MemoryFlatState_get_def)
qed

lemma get_after_apply:
  assumes "inv t" "state_ok F t fs" "ft_block_depth F t i = Ok d" "map_of (rev cs) k = Some v"
  shows "MemoryFlatState_get F (snd (MemoryFlatState_apply F fs cs i t)) k i t = Ok v"
  using get_own [OF assms(1) state_ok_apply [OF assms(2)] assms(3)]
    written_apply [OF assms(2,3), of cs k d i] assms(4) by simp

text \<open>A write is invisible at a block that is shallower or of which the writer is no ancestor.\<close>

lemma get_write_entry:
  assumes "state_ok F t fs" "ft_block_depth F t j = Ok e"
    and "d \<le> e \<Longrightarrow> ForkTree_is_ancestor F t j i = Ok False"
  shows "MemoryFlatState_get F (fs\<lparr>mfs_state := write_entry d i kv (mfs_state fs)\<rparr>) k j t =
    MemoryFlatState_get F fs k j t"
proof -
  let ?m = "case HashMap_get (mfs_state fs) (fst kv) of None \<Rightarrow> [] | Some m \<Rightarrow> m"
  have "HashMap_invar (mfs_state fs)" using assms(1) by (simp add: state_ok_def)
  moreover have "BTreeMap_invar ?m"
    using state_ok_get [OF assms(1)] by (auto simp: depths_ok_def split: option.splits)
  then have "search_range (ForkTree_is_ancestor F t j)
      (BTreeMap_range_to_rev e (BTreeMap_entry d [] (HashMap_insert i (snd kv)) ?m)) =
      search_range (ForkTree_is_ancestor F t j) (BTreeMap_range_to_rev e ?m)"
    using assms(3) by (rule search_range_miss)
  ultimately show ?thesis
    using assms(2)
    by (auto simp: MemoryFlatState_get_def write_entry_def hm.get_entry_or BTreeMap_range_to_rev_def
        split: option.splits)
qed

lemma get_isolated:
  assumes "state_ok F t fs" "ft_block_depth F t i = Ok d" "ft_block_depth F t j = Ok e"
    and "d \<le> e \<Longrightarrow> ForkTree_is_ancestor F t j i = Ok False"
  shows "MemoryFlatState_get F (snd (MemoryFlatState_apply F fs cs i t)) k j t =
    MemoryFlatState_get F fs k j t"
proof -
  have "MemoryFlatState_get F (fs\<lparr>mfs_state := fold (write_entry d i) cs (mfs_state fs)\<rparr>) k j t =
      MemoryFlatState_get F fs k j t"
    using assms(1)
  proof (induction cs arbitrary: fs)
    case (Cons kv cs)
    let ?fs = "fs\<lparr>mfs_state := write_entry d i kv (mfs_state fs)\<rparr>"
    have "state_ok F t ?fs"
      using store_ok_write_entry [OF _ assms(2), of "mfs_state fs" kv] Cons.prems
      by (simp add: store_ok_def state_ok_def)
    from Cons.IH [OF this] get_write_entry [OF Cons.prems assms(3,4)] show ?case by simp
  qed simp
  then show ?thesis using assms(2) by (simp add: MemoryFlatState_apply_def)
qed

end

text \<open>Over any fork tree, the memory flat state meets the contract of the overlay.\<close>

definition write_ready ::
  "('t, 'b, 'id, 'qe) ForkTree \<Rightarrow> ('t \<Rightarrow> bool) \<Rightarrow> 't \<Rightarrow> ('k, 'v, 'id) MemoryFlatState \<Rightarrow> 'id \<Rightarrow> bool" where
  "write_ready F good t fs i \<longleftrightarrow> good t \<and> state_ok F t fs \<and> is_ok (ft_block_depth F t i)"

lemma FlatState_sel [simp]: "fs_get (MemoryFlatState_FlatState F) = MemoryFlatState_get F"
  by (simp add: MemoryFlatState_FlatState_def)

lemma FlatStateMut_sel [simp]:
  "fsm_flat_state (MemoryFlatState_FlatStateMut F) = MemoryFlatState_FlatState F"
  "fsm_apply (MemoryFlatState_FlatStateMut F) = MemoryFlatState_apply F"
  by (simp_all add: MemoryFlatState_FlatStateMut_def)

sublocale fork_tree \<subseteq> commit: flat_state_mut "MemoryFlatState_FlatStateMut F" "write_ready F inv"
  by unfold_locales (auto simp: write_ready_def is_ok_iff intro: get_after_apply)

section \<open>Reads over a complete fork tree\<close>

context complete_fork_tree
begin

lemma get_complete:
  assumes t: "inv t" and ok: "state_ok F t fs" and i: "ft_block_depth F t i = Ok d"
  shows "MemoryFlatState_get F fs k i t =
    Ok (first_write (write_of F t fs k) (par t) (unat d) i)"
proof -
  have "\<exists>v. MemoryFlatState_get F fs k i t = Ok v"
  proof (cases "HashMap_get (mfs_state fs) k")
    case (Some m)
    have m: "depths_ok F t m" using ok Some by (rule state_ok_get)
    have "is_ok (ForkTree_is_ancestor F t i s)"
      if "(e, ids) \<in> set (BTreeMap_range_to_rev d m)" "(s, v) \<in> set ids" for e ids s v
    proof -
      have e: "(e, ids) \<in> set m" "e \<le> d"
        using that(1) by (auto simp: set_BTreeMap_range_to_rev)
      then have "ft_block_depth F t s = Ok e"
        using m that(2) by (auto simp: depths_ok_def intro: ids_ok_depth)
      from is_ancestor_complete [OF t i this e(2)] show ?thesis by simp
    qed
    then obtain r where
      "search_range (ForkTree_is_ancestor F t i) (BTreeMap_range_to_rev d m) = Ok r"
      using search_range_total [of "BTreeMap_range_to_rev d m" "ForkTree_is_ancestor F t i"] by fast
    with Some i show ?thesis by (simp add: MemoryFlatState_get_def)
  qed (simp add: MemoryFlatState_get_def)
  then show ?thesis using get_sound [OF t ok i] by blast
qed

end

section \<open>Committing an overlay\<close>

context fork_tree
begin

text \<open>The values on a path are not touched by writes at a block that is not on it.\<close>

lemma first_write_isolated:
  assumes ok: "state_ok F t fs" and i: "ft_block_depth F t i = Ok d"
  shows "\<nexists>n. climb (par t) n j = Some i \<Longrightarrow>
    first_write (write_of F t (snd (MemoryFlatState_apply F fs cs i t)) k) (par t) m j =
    first_write (write_of F t fs k) (par t) m j"
proof (induction m arbitrary: j)
  case 0
  have "j \<noteq> i" using 0 by (metis climb.simps(1))
  then have "write_of F t (snd (MemoryFlatState_apply F fs cs i t)) k j = write_of F t fs k j"
    using written_apply [OF ok i] by (simp add: write_of_def split: Result.split)
  then show ?case by simp
next
  case (Suc m)
  have "j \<noteq> i" using Suc.prems by (metis climb.simps(1))
  then have w: "write_of F t (snd (MemoryFlatState_apply F fs cs i t)) k j = write_of F t fs k j"
    using written_apply [OF ok i] by (simp add: write_of_def split: Result.split)
  have "\<nexists>n. climb (par t) n j' = Some i" if "par t j = Some j'" for j'
  proof
    assume "\<exists>n. climb (par t) n j' = Some i"
    then obtain n where "climb (par t) n j' = Some i" ..
    then have "climb (par t) (Suc n) j = Some i" using that by simp
    with Suc.prems show False by blast
  qed
  with Suc.IH w show ?case by (simp split: option.split)
qed

text \<open>The value at a fresh child is the overlay's write or else the value at the parent.\<close>

lemma first_write_commit:
  assumes t: "inv t" and ok: "state_ok F t fs"
    and c: "ft_block_depth F t c = Ok d" "par t c = Some p" "written fs k d c = None"
    and p: "ft_block_depth F t p = Ok e" "unat d = Suc (unat e)"
    and miss: "map_of (rev cs) k = None"
  shows "first_write (write_of F t (snd (MemoryFlatState_apply F fs cs c t)) k) (par t) (unat d) c =
    first_write (write_of F t fs k) (par t) (unat e) p"
proof -
  have "write_of F t (snd (MemoryFlatState_apply F fs cs c t)) k = write_of F t fs k"
    using written_apply [OF ok c(1)] miss c(1)
    by (auto simp: write_of_def fun_eq_iff split: Result.splits)
  moreover have "write_of F t fs k c = None" using c by (simp add: write_of_def)
  ultimately show ?thesis using c(2) p(2) by simp
qed

lemma commit_child_sound:
  assumes t: "inv t" and ok: "state_ok F t fs" and cs: "HashMap_invar cs"
    and c: "ft_block_depth F t c = Ok d" "par t c = Some p" "written fs k d c = None"
    and new: "MemoryFlatState_get F (snd (MemoryFlatState_apply F fs cs c t)) k c t = Ok v"
    and old: "HashMap_get cs k = None \<Longrightarrow> MemoryFlatState_get F fs k p t = Ok u"
  shows "v = (case HashMap_get cs k of Some w \<Rightarrow> w | None \<Rightarrow> u)"
proof (cases "HashMap_get cs k")
  case None
  obtain e where e: "ft_block_depth F t p = Ok e" "unat d = Suc (unat e)"
    using parent_depth [OF t c(1,2)] by blast
  have miss: "map_of (rev cs) k = None" using None cs by (simp add: map_of_rev_distinct)
  have "v = first_write (write_of F t (snd (MemoryFlatState_apply F fs cs c t)) k) (par t) (unat d) c"
    using get_sound [OF t state_ok_apply [OF ok] c(1) new] .
  also have "\<dots> = first_write (write_of F t fs k) (par t) (unat e) p"
    using first_write_commit [OF t ok c e miss] .
  also have "\<dots> = u"
    using get_sound [OF t ok e(1) old [OF None]] by simp
  finally show ?thesis using None by simp
next
  case (Some w)
  then have "map_of (rev cs) k = Some w" using cs by (simp add: map_of_rev_distinct)
  from get_after_apply [OF t ok c(1) this] new Some show ?thesis by simp
qed

end

context complete_fork_tree
begin

lemma commit_child:
  assumes t: "inv t" and ok: "state_ok F t fs" and cs: "HashMap_invar (ov_changeset ov)"
    and ov: "ov_flat_state ov = fs" "ov_fork_tree ov = t" "ov_block_id ov = p"
    and c: "ft_block_depth F t c = Ok d" "par t c = Some p" "written fs k d c = None"
  shows "MemoryFlatState_get F
      (snd (MemoryFlatState_apply F fs (OverlayedFlatState_into_changeset ov) c t)) k c t =
    OverlayedFlatState_get (MemoryFlatState_FlatState F) ov k"
proof -
  let ?cs = "ov_changeset ov"
  obtain e where e: "ft_block_depth F t p = Ok e" using parent_depth [OF t c(1,2)] by blast
  obtain v u where v: "MemoryFlatState_get F (snd (MemoryFlatState_apply F fs ?cs c t)) k c t = Ok v"
    and u: "MemoryFlatState_get F fs k p t = Ok u"
    using get_complete [OF t state_ok_apply [OF ok] c(1)] get_complete [OF t ok e] by blast
  have "v = (case HashMap_get ?cs k of Some w \<Rightarrow> w | None \<Rightarrow> u)"
    by (rule commit_child_sound [OF t ok cs c v u])
  with v u ov show ?thesis
    by (simp add: OverlayedFlatState_get_def OverlayedFlatState_into_changeset_def split: option.splits)
qed

end

end
