(* ===== verification/StateProperties.thy ===== *)
theory StateProperties
  imports MemoryFlatStateReads ForkTreeProperties
begin

text \<open>
  The properties of the flat state and its overlay (\<open>blockchain/src/state.rs\<close>,
  \<open>blockchain/src/memory/state.rs\<close>) over the memory fork tree, each with a witness.

  The flat state is generic over the fork tree, and so are the theorems about inherited values. They
  say what holds over every fork tree whose answers are right (\<open>fork_tree\<close>), such as the memory fork
  tree of the repository: values that are read are never wrong. And they say what holds in addition
  over a fork tree that answers for every ancestor, as the trait asks (\<open>complete_fork_tree\<close>): every
  value is read. The memory fork tree refuses the depths of all proper ancestors, so the second part
  does not apply to it; the exact results over it are stated separately. The witnesses use both the
  memory fork tree and \<open>search_ForkTree\<close>, which answers with the search loop.
\<close>

section \<open>Exact reads over the memory fork tree\<close>

lemma search_ids_Err:
  assumes "\<forall>(s, v) \<in> set ids. f s = Ok False \<or> f s = Err E"
    and "(s, v) \<in> set ids" "f s = Err E"
  shows "search_ids f ids = Err E"
  using assms
proof (induction ids)
  case (Cons p ids)
  then show ?case by (cases p) auto
qed simp

lemma search_range_Err:
  assumes "\<forall>(e, ids) \<in> set ds. \<forall>(s, v) \<in> set ids. f s = Ok False \<or> f s = Err E"
    and "(e, ids) \<in> set ds" "(s, v) \<in> set ids" "f s = Err E"
  shows "search_range f ds = Err E"
  using assms
proof (induction f ds rule: search_range.induct)
  case (2 f d ids' rest)
  show ?case
  proof (cases "\<forall>(s, v) \<in> set ids'. f s = Ok False")
    case True
    then have "search_ids f ids' = Ok None" by (simp add: search_ids_None)
    moreover have "(e, ids) \<in> set rest" using 2(3-5) True by fastforce
    ultimately show ?thesis using 2 by auto
  next
    case False
    with 2(2) have "search_ids f ids' = Err E"
      by (auto intro!: search_ids_Err)
    then show ?thesis by simp
  qed
qed simp

lemma is_ancestor_memory:
  assumes "wf_tree I t" "MemoryForkTree_block_depth t i = Ok d" "MemoryForkTree_block_depth t s = Ok e"
  shows "ForkTree_is_ancestor (MemoryForkTree_ForkTree I) t i s =
    (if e = d then Ok (i = s) else Err InvalidAncestorDepth)"
  using assms by (simp add: ForkTree_is_ancestor_def wf_tree_ancestor)

abbreviation memory_state_ok ::
  "('b, 'id) Identified \<Rightarrow> ('b, 'id) MemoryForkTree \<Rightarrow> ('k, 'v, 'id) MemoryFlatState \<Rightarrow> bool" where
  "memory_state_ok I \<equiv> state_ok (MemoryForkTree_ForkTree I)"

lemma get_memory_inherited:
  assumes wf: "wf_tree I t" and ok: "memory_state_ok I t fs"
    and i: "MemoryForkTree_block_depth t i = Ok d" "written fs k d i = None"
    and w: "written fs k e s = Some v" "e < d"
  shows "MemoryFlatState_get (MemoryForkTree_ForkTree I) fs k i t = Err InvalidAncestorDepth"
proof -
  let ?f = "ForkTree_is_ancestor (MemoryForkTree_ForkTree I) t i"
  obtain m ids where m: "HashMap_get (mfs_state fs) k = Some m" "(e, ids) \<in> set m" "(s, v) \<in> set ids"
    using written_entry [OF w(1)] by blast
  have mok: "depths_ok (MemoryForkTree_ForkTree I) t m" using ok m(1) by (rule state_ok_get)
  have dep: "MemoryForkTree_block_depth t s' = Ok e'"
    if "(e', ids') \<in> set m" "(s', x) \<in> set ids'" for e' ids' s' x
    using mok that ids_ok_depth [of "MemoryForkTree_ForkTree I" t e' ids' s' x]
    by (auto simp: depths_ok_def)
  have "?f s' = Ok False \<or> ?f s' = Err InvalidAncestorDepth"
    if "(e', ids') \<in> set m" "(s', x) \<in> set ids'" for e' ids' s' x
  proof (cases "s' = i")
    case True
    then have "e' = d" using dep [OF that] i(1) by simp
    then have "written fs k d i = Some x" using entry_written [OF ok m(1) that] True by simp
    then show ?thesis using i(2) by simp
  qed (simp add: is_ancestor_memory [OF wf i(1) dep [OF that]])
  moreover have "?f s = Err InvalidAncestorDepth"
    using is_ancestor_memory [OF wf i(1) dep [OF m(2,3)]] w(2) by simp
  moreover have "(e, ids) \<in> set (BTreeMap_range_to_rev d m)"
    using m(2) w(2) by (auto simp: set_BTreeMap_range_to_rev)
  ultimately have "search_range ?f (BTreeMap_range_to_rev d m) = Err InvalidAncestorDepth"
    using m(3) by (intro search_range_Err) (auto simp: set_BTreeMap_range_to_rev)
  with m(1) i(1) show ?thesis by (simp add: MemoryFlatState_get_def)
qed

lemma get_memory_unwritten:
  assumes wf: "wf_tree I t" and ok: "memory_state_ok I t fs"
    and i: "MemoryForkTree_block_depth t i = Ok d" "written fs k d i = None"
    and w: "\<And>e s. e < d \<Longrightarrow> written fs k e s = None"
  shows "MemoryFlatState_get (MemoryForkTree_ForkTree I) fs k i t = Ok None"
proof (cases "HashMap_get (mfs_state fs) k")
  case (Some m)
  let ?f = "ForkTree_is_ancestor (MemoryForkTree_ForkTree I) t i"
  have mok: "depths_ok (MemoryForkTree_ForkTree I) t m" using ok Some by (rule state_ok_get)
  have "?f s = Ok False"
    if e: "(e, ids) \<in> set m" "(s, x) \<in> set ids" "e \<le> d" for e ids s x
  proof -
    have wr: "written fs k e s = Some x" using entry_written [OF ok Some e(1,2)] .
    then have "e = d" using w [of e s] e(3) by (cases "e = d") auto
    moreover have "MemoryForkTree_block_depth t s = Ok e"
      using mok e(1,2) ids_ok_depth [of "MemoryForkTree_ForkTree I" t e ids s x]
      by (auto simp: depths_ok_def)
    ultimately show ?thesis using is_ancestor_memory [OF wf i(1)] wr i(2) by auto
  qed
  then have "search_range ?f (BTreeMap_range_to_rev d m) = Ok None"
    by (auto simp: search_range_None set_BTreeMap_range_to_rev)
  with Some i(1) show ?thesis by (simp add: MemoryFlatState_get_def)
qed (simp add: MemoryFlatState_get_def)

lemma get_memory_exact:
  assumes "wf_tree I t" "memory_state_ok I t fs" "MemoryForkTree_block_depth t i = Ok d"
  shows "MemoryFlatState_get (MemoryForkTree_ForkTree I) fs k i t =
    (case written fs k d i of
       Some v \<Rightarrow> Ok v
     | None \<Rightarrow> if \<exists>e s v. e < d \<and> written fs k e s = Some v then Err InvalidAncestorDepth else Ok None)"
proof (cases "written fs k d i")
  case None
  then show ?thesis
    using get_memory_inherited [OF assms None] get_memory_unwritten [OF assms None] by auto
next
  case (Some v)
  then show ?thesis using mft.get_own [OF assms(1,2)] assms(3) by simp
qed

lemma get_memory_isolated:
  assumes "wf_tree I t" "memory_state_ok I t fs"
    and "MemoryForkTree_block_depth t i = Ok d" "MemoryForkTree_block_depth t j = Ok e"
    and "e \<le> d" "j \<noteq> i"
  shows "MemoryFlatState_get (MemoryForkTree_ForkTree I)
      (snd (MemoryFlatState_apply (MemoryForkTree_ForkTree I) fs cs i t)) k j t =
    MemoryFlatState_get (MemoryForkTree_ForkTree I) fs k j t"
proof (rule mft.get_isolated [OF assms(2)])
  show "ForkTree_is_ancestor (MemoryForkTree_ForkTree I) t j i = Ok False" if "d \<le> e"
    using is_ancestor_memory [OF assms(1,4,3)] assms(5,6) that by simp
qed (use assms in simp_all)

text \<open>A tree that only gains blocks keeps the invariant of the state and the reads at the old
  blocks.\<close>

lemma state_ok_grow:
  assumes "memory_state_ok I t fs"
    and "\<And>j d. MemoryForkTree_block_depth t j = Ok d \<Longrightarrow> MemoryForkTree_block_depth t' j = Ok d"
  shows "memory_state_ok I t' fs"
  using assms(1) unfolding state_ok_def depths_ok_def ids_ok_def
  by (fastforce dest: assms(2) split: Result.splits)

lemma get_memory_grow:
  assumes "wf_tree I t" "wf_tree I t'" "memory_state_ok I t fs" "MemoryForkTree_block_depth t i = Ok d"
    and "\<And>j d. MemoryForkTree_block_depth t j = Ok d \<Longrightarrow> MemoryForkTree_block_depth t' j = Ok d"
  shows "MemoryFlatState_get (MemoryForkTree_ForkTree I) fs k i t' =
    MemoryFlatState_get (MemoryForkTree_ForkTree I) fs k i t"
  using get_memory_exact [OF assms(1,3,4)]
    get_memory_exact [OF assms(2) state_ok_grow [OF assms(3,5)] assms(5) [OF assms(4)]] by simp

section \<open>Concrete states\<close>

text \<open>Over the chain \<open>deep_tree\<close>: block 1 sets key 7, block 4 removes it and sets key 8.\<close>

definition demo_state :: "(nat, nat, nat) MemoryFlatState" where
  "demo_state =
     snd (MemoryFlatState_apply (MemoryForkTree_ForkTree pair_ident)
       (snd (MemoryFlatState_apply (MemoryForkTree_ForkTree pair_ident) MemoryFlatState_new
          [(7, Some 70)] 1 deep_tree))
       [(7, None), (8, Some 80)] 4 deep_tree)"

lemma demo_state_ok:
  "memory_state_ok pair_ident deep_tree demo_state"
  "state_ok (search_ForkTree pair_ident) deep_tree demo_state"
  by code_simp+

lemma deep_tree_depths:
  "MemoryForkTree_block_depth deep_tree 0 = Ok 0" "MemoryForkTree_block_depth deep_tree 1 = Ok 1"
  "MemoryForkTree_block_depth deep_tree 3 = Ok 3" "MemoryForkTree_block_depth deep_tree 4 = Ok 4"
  "MemoryForkTree_block_depth deep_tree 5 = Ok 5"
  by code_simp+

section \<open>Reads\<close>

text \<open>C3. The flat state is generic over the fork tree. Over every fork tree whose answers are right,
  the memory fork tree included, a value that \<open>get\<close> returns at a known block is the last write to the
  key on the path from the root to the block (\<open>None\<close> if the last one removed it or there is none), for
  every iteration order of the hash maps; a value from another fork is never returned. Over a fork
  tree that also answers for every ancestor of a known block, as the trait asks, \<open>get\<close> always
  returns that value.\<close>

theorem get_reads_last_write:
  assumes "fork_tree F good par" "good t" "state_ok F t fs" "ft_block_depth F t i = Ok d"
    and "last_write = first_write (write_of F t fs k) (par t) (unat d) i"
  shows "(\<forall>v. MemoryFlatState_get F fs k i t = Ok v \<longrightarrow> v = last_write) \<and>
    (complete_fork_tree F good par \<longrightarrow> MemoryFlatState_get F fs k i t = Ok last_write)"
  using fork_tree.get_sound [OF assms(1-4)] complete_fork_tree.get_complete [of F good par, OF _ assms(2-4)] assms(5) by blast

theorem get_reads_last_write_witness:
  "MemoryFlatState_get (search_ForkTree pair_ident) demo_state 7 3 deep_tree = Ok (Some 70) \<and>
   MemoryFlatState_get (search_ForkTree pair_ident) demo_state 7 5 deep_tree = Ok None \<and>
   (\<exists>v. MemoryFlatState_get (MemoryForkTree_ForkTree pair_ident) demo_state 8 4 deep_tree = Ok v \<and> v = Some 80)"
proof -
  have *: "Some 70 = first_write (write_of (search_ForkTree pair_ident) deep_tree demo_state 7)
      (parent_of pair_ident deep_tree) (unat (3 :: usize)) 3"
    "None = first_write (write_of (search_ForkTree pair_ident) deep_tree demo_state 7)
      (parent_of pair_ident deep_tree) (unat (5 :: usize)) 5"
    "Some 80 = first_write (write_of (MemoryForkTree_ForkTree pair_ident) deep_tree demo_state 8)
      (parent_of pair_ident deep_tree) (unat (4 :: usize)) 4" by code_simp+
  have d: "ft_block_depth (search_ForkTree pair_ident) deep_tree 3 = Ok 3"
    "ft_block_depth (search_ForkTree pair_ident) deep_tree 5 = Ok 5"
    "ft_block_depth (MemoryForkTree_ForkTree pair_ident) deep_tree 4 = Ok 4" by (simp_all add: deep_tree_depths)
  note read = get_reads_last_write [OF search.fork_tree_axioms wf_deep_tree demo_state_ok(2),
      THEN conjunct2, THEN mp, OF _ _ search.complete_fork_tree_axioms]
  note read [OF d(1) *(1)] read [OF d(2) *(2)]
  moreover have "is_ok (MemoryFlatState_get (MemoryForkTree_ForkTree pair_ident) demo_state 8 4 deep_tree)"
    by code_simp
  then obtain v where "MemoryFlatState_get (MemoryForkTree_ForkTree pair_ident) demo_state 8 4 deep_tree = Ok v"
    by (cases "MemoryFlatState_get (MemoryForkTree_ForkTree pair_ident) demo_state 8 4 deep_tree") auto
  with get_reads_last_write [OF mft.fork_tree_axioms wf_deep_tree demo_state_ok(1) d(3) *(3)]
  have "\<exists>v. MemoryFlatState_get (MemoryForkTree_ForkTree pair_ident) demo_state 8 4 deep_tree = Ok v \<and> v = Some 80"
    by blast
  ultimately show ?thesis by blast
qed

text \<open>C26. What \<open>get\<close> answers over the memory fork tree: the block's own write if it made one;
  otherwise an error as soon as any block at a smaller depth ever wrote the key (so no value is
  ever inherited from an ancestor), and \<open>None\<close> only for a key nobody wrote at a smaller depth.\<close>

theorem get_memory_tree_exact:
  assumes "wf_tree I t" "memory_state_ok I t fs" "MemoryForkTree_block_depth t i = Ok d"
  shows "MemoryFlatState_get (MemoryForkTree_ForkTree I) fs k i t =
    (case written fs k d i of
       Some v \<Rightarrow> Ok v
     | None \<Rightarrow> if \<exists>e s v. e < d \<and> written fs k e s = Some v then Err InvalidAncestorDepth else Ok None)"
  using assms by (rule get_memory_exact)

theorem get_memory_tree_exact_witness:
  "MemoryFlatState_get (MemoryForkTree_ForkTree pair_ident) demo_state 7 3 deep_tree =
     Err InvalidAncestorDepth \<and>
   first_write (write_of (MemoryForkTree_ForkTree pair_ident) deep_tree demo_state 7)
     (parent_of pair_ident deep_tree) 3 3 = Some 70"
proof
  have w: "written demo_state 7 3 3 = None" "written demo_state 7 1 1 = Some (Some 70)" by code_simp+
  have "(1 :: usize) < 3" by simp
  with w(2) have "\<exists>e s v. e < (3 :: usize) \<and> written demo_state 7 e s = Some v" by blast
  with w(1) show "MemoryFlatState_get (MemoryForkTree_ForkTree pair_ident) demo_state 7 3 deep_tree =
     Err InvalidAncestorDepth"
    using get_memory_tree_exact [OF wf_deep_tree demo_state_ok(1) deep_tree_depths(3), of 7] by auto
  show "first_write (write_of (MemoryForkTree_ForkTree pair_ident) deep_tree demo_state 7)
     (parent_of pair_ident deep_tree) 3 3 = Some 70" by code_simp
qed

text \<open>Reads and writes at a block the tree does not know: \<open>apply\<close> fails with
  \<open>UnknownBlock\<close> and changes nothing; \<open>get\<close> fails for a key that was ever written, but
  reports an absent value for any other key.\<close>

lemma unknown_block_access:
  assumes "HashMap_get (mft_blocks t) i = None"
  shows "MemoryFlatState_apply (MemoryForkTree_ForkTree I) fs cs i t = (Err UnknownBlock, fs) \<and>
    MemoryFlatState_get (MemoryForkTree_ForkTree I) fs k i t =
      (if HashMap_get (mfs_state fs) k = None then Ok None else Err UnknownBlock)"
  using assms
  by (auto simp: MemoryFlatState_apply_def MemoryFlatState_get_def MemoryForkTree_block_depth_def)

section \<open>Writes\<close>

text \<open>C22. After \<open>apply\<close> at a known block, \<open>get\<close> at that block returns for every key of the
  changeset the last value the changeset gives it, a removal included.\<close>

theorem apply_then_get:
  assumes "wf_tree I t" "memory_state_ok I t fs" "MemoryForkTree_block_depth t i = Ok d"
    and "map_of (rev cs) k = Some v"
  shows "MemoryFlatState_get (MemoryForkTree_ForkTree I)
    (snd (MemoryFlatState_apply (MemoryForkTree_ForkTree I) fs cs i t)) k i t = Ok v"
  using mft.get_after_apply [OF assms(1,2) _ assms(4)] assms(3) by simp

theorem apply_then_get_witness:
  "MemoryFlatState_get (MemoryForkTree_ForkTree pair_ident)
     (snd (MemoryFlatState_apply (MemoryForkTree_ForkTree pair_ident) demo_state
        [(7, Some 1), (7, Some 2)] 5 deep_tree)) 7 5 deep_tree = Ok (Some 2)"
  by (rule apply_then_get [OF wf_deep_tree demo_state_ok(1) deep_tree_depths(5)]) simp

text \<open>C27. Writes at a block are visible at most in its subtree. Over every fork tree whose answers are
  right, the memory fork tree included, a read at a block of which the writer is no ancestor that
  succeeds both before and after the write gives the same value; the whole result is the same, errors
  included, when the reading block is not deeper than the writer, and at every depth when the fork
  tree also answers for every ancestor of a known block.\<close>

theorem apply_isolated:
  assumes "fork_tree F good par" "good t" "state_ok F t fs"
    and "ft_block_depth F t i = Ok d" "ft_block_depth F t j = Ok e" "\<nexists>n. climb (par t) n j = Some i"
    and "before = MemoryFlatState_get F fs k j t"
    and "after = MemoryFlatState_get F (snd (MemoryFlatState_apply F fs cs i t)) k j t"
  shows "(\<forall>v v'. before = Ok v \<longrightarrow> after = Ok v' \<longrightarrow> v' = v) \<and>
    (e \<le> d \<or> complete_fork_tree F good par \<longrightarrow> after = before)"
proof (intro conjI allI impI)
  fix v v' assume "before = Ok v" "after = Ok v'"
  then show "v' = v"
    using fork_tree.get_sound [OF assms(1-3,5)] fork_tree.get_sound [OF assms(1,2) state_ok_apply [OF assms(3)] assms(5)]
      fork_tree.first_write_isolated [OF assms(1,3,4,6)] assms(7,8) by metis
next
  assume *: "e \<le> d \<or> complete_fork_tree F good par"
  have ne: "j \<noteq> i" using assms(6) by (metis climb.simps(1))
  have "ForkTree_is_ancestor F t j i = Ok False" if "d \<le> e"
    using *
  proof
    assume "e \<le> d"
    with that have "d = e" by simp
    with fork_tree.is_ancestor_same_depth [OF assms(1,2,5)] assms(4) ne show ?thesis by simp
  next
    assume "complete_fork_tree F good par"
    from complete_fork_tree.is_ancestor_complete [OF this assms(2,5,4) that] assms(6) show ?thesis by simp
  qed
  from fork_tree.get_isolated [OF assms(1,3-5) this] show "after = before" by (simp add: assms(7,8))
qed

lemma deep_tree_no_descendant:
  assumes "MemoryForkTree_block_depth deep_tree i = Ok d" "d < 4"
  shows "\<nexists>n. climb (parent_of pair_ident deep_tree) n i = Some 4"
proof
  assume "\<exists>n. climb (parent_of pair_ident deep_tree) n i = Some 4"
  then obtain n where "climb (parent_of pair_ident deep_tree) n i = Some 4" ..
  from mft.climb_depth [OF wf_deep_tree, simplified, OF assms(1) this] assms(2)
  show False by (auto simp: deep_tree_depths word_less_nat_alt)
qed

theorem apply_isolated_witness:
  "MemoryFlatState_get (MemoryForkTree_ForkTree pair_ident)
      (snd (MemoryFlatState_apply (MemoryForkTree_ForkTree pair_ident) demo_state [(7, Some 5)] 4 deep_tree))
      7 1 deep_tree =
    MemoryFlatState_get (MemoryForkTree_ForkTree pair_ident) demo_state 7 1 deep_tree \<and>
   MemoryFlatState_get (search_ForkTree pair_ident)
      (snd (MemoryFlatState_apply (search_ForkTree pair_ident) demo_state [(7, Some 5)] 4 deep_tree))
      7 3 deep_tree =
    MemoryFlatState_get (search_ForkTree pair_ident) demo_state 7 3 deep_tree"
proof -
  have 1: "\<nexists>n. climb (parent_of pair_ident deep_tree) n 1 = Some 4"
    by (rule deep_tree_no_descendant [OF deep_tree_depths(2)]) simp
  have 3: "\<nexists>n. climb (parent_of pair_ident deep_tree) n 3 = Some 4"
    by (rule deep_tree_no_descendant [OF deep_tree_depths(3)]) simp
  have d: "ft_block_depth (MemoryForkTree_ForkTree pair_ident) deep_tree 4 = Ok 4"
    "ft_block_depth (MemoryForkTree_ForkTree pair_ident) deep_tree 1 = Ok 1"
    "ft_block_depth (search_ForkTree pair_ident) deep_tree 4 = Ok 4"
    "ft_block_depth (search_ForkTree pair_ident) deep_tree 3 = Ok 3" using deep_tree_depths by simp_all
  have "(1 :: usize) \<le> 4 \<or> complete_fork_tree (MemoryForkTree_ForkTree pair_ident) (wf_tree pair_ident) (parent_of pair_ident)"
    "(3 :: usize) \<le> 4 \<or> complete_fork_tree (search_ForkTree pair_ident) (wf_tree pair_ident) (parent_of pair_ident)"
    by simp_all
  with apply_isolated [OF mft.fork_tree_axioms wf_deep_tree demo_state_ok(1) d(1,2) 1 refl refl]
    apply_isolated [OF search.fork_tree_axioms wf_deep_tree demo_state_ok(2) d(3,4) 3 refl refl]
  show ?thesis by blast
qed

section \<open>The overlay\<close>

datatype ('k, 'v) overlay_edit = Edit_insert 'k 'v | Edit_remove 'k

fun edit_overlay ::
  "('k, 'v) overlay_edit \<Rightarrow> ('fs, 'ft, 'id, 'k, 'v) OverlayedFlatState \<Rightarrow>
     ('fs, 'ft, 'id, 'k, 'v) OverlayedFlatState" where
  "edit_overlay (Edit_insert k v) ov = OverlayedFlatState_insert k v ov"
| "edit_overlay (Edit_remove k) ov = OverlayedFlatState_remove k ov"

fun edit_pair :: "('k, 'v) overlay_edit \<Rightarrow> 'k \<times> 'v option" where
  "edit_pair (Edit_insert k v) = (k, Some v)"
| "edit_pair (Edit_remove k) = (k, None)"

lemma overlay_get_edits:
  "OverlayedFlatState_get S (fold edit_overlay es ov) k =
     (case map_of (rev (map edit_pair es)) k of
        Some v \<Rightarrow> Ok v | None \<Rightarrow> OverlayedFlatState_get S ov k)"
proof (induction es arbitrary: ov)
  case (Cons e es)
  then show ?case
    by (cases e) (auto simp: overlay_get_insert overlay_get_remove map_add_def split: option.splits)
qed simp

lemma overlay_edits_frame:
  "ov_flat_state (fold edit_overlay es ov) = ov_flat_state ov"
  "ov_fork_tree (fold edit_overlay es ov) = ov_fork_tree ov"
  "ov_block_id (fold edit_overlay es ov) = ov_block_id ov"
  "HashMap_invar (ov_changeset ov) \<Longrightarrow> HashMap_invar (ov_changeset (fold edit_overlay es ov))"
proof (induction es arbitrary: ov)
  case (Cons e es)
  note OverlayedFlatState_insert_def [simp] OverlayedFlatState_remove_def [simp] distinct_update [simp]
  { case 1 then show ?case by (cases e) (simp_all add: Cons.IH(1))
  next case 2 then show ?case by (cases e) (simp_all add: Cons.IH(2))
  next case 3 then show ?case by (cases e) (simp_all add: Cons.IH(3))
  next case 4 then show ?case by (cases e) (simp_all add: Cons.IH(4)) }
qed simp_all

lemma overlay_changeset_edited:
  "k \<in> fst ` set (map edit_pair es) \<or> HashMap_get (ov_changeset ov) k \<noteq> None \<Longrightarrow>
   HashMap_get (ov_changeset (fold edit_overlay es ov)) k \<noteq> None"
proof (induction es arbitrary: ov)
  case (Cons e es)
  have "k \<in> fst ` set (map edit_pair es) \<or> HashMap_get (ov_changeset (edit_overlay e ov)) k \<noteq> None"
    using Cons.prems
    by (cases e) (auto simp: OverlayedFlatState_insert_def OverlayedFlatState_remove_def map_simps)
  from Cons.IH [OF this] show ?case by simp
qed simp

text \<open>C25. Reading through an overlay after any sequence of insertions and removals returns the
  last edit of the key, an absent value after a removal, and otherwise what the underlying state
  returns at the overlay's block, errors included. This holds for every implementation of
  \<open>FlatState\<close>.\<close>

theorem overlay_reads_last_edit:
  "OverlayedFlatState_get S (fold edit_overlay es (FlatState_overlayed fs i ft)) k =
     (case map_of (rev (map edit_pair es)) k of
        Some v \<Rightarrow> Ok v | None \<Rightarrow> fs_get S fs k i ft)"
  by (simp add: overlay_get_edits)
    (simp add: OverlayedFlatState_get_def FlatState_overlayed_def split: option.split)

text \<open>C24. Round trip of the overlay: build an overlay at a parent block, edit it, apply its changeset
  at a child block, and read at the child a key that the child had not written before. Over every
  fork tree whose answers are right, the memory fork tree included, an edited key reads there what it
  read through the overlay, and so does any other key as far as both reads succeed; over a fork tree
  that also answers for every ancestor of a known block every key does. (Over the memory fork tree a
  key that was inherited reads as an error at the child.)\<close>

theorem overlay_commit_roundtrip:
  assumes "fork_tree F good par" "good t" "state_ok F t fs"
    and "ft_block_depth F t c = Ok d" "par t c = Some p" "written fs k d c = None"
    and "ov = fold edit_overlay es (FlatState_overlayed fs p t)"
    and "through = OverlayedFlatState_get (MemoryFlatState_FlatState F) ov k"
    and "child = MemoryFlatState_get F (snd (MemoryFlatState_apply F fs (OverlayedFlatState_into_changeset ov) c t)) k c t"
  shows "(k \<in> fst ` set (map edit_pair es) \<or> complete_fork_tree F good par \<longrightarrow> child = through) \<and>
    (\<forall>u v. through = Ok u \<longrightarrow> child = Ok v \<longrightarrow> v = u)"
proof -
  note frame = overlay_edits_frame [where es = es and ov = "FlatState_overlayed fs p t", folded assms(7)]
  have inv: "HashMap_invar (ov_changeset ov)" by (rule frame(4)) (simp add: FlatState_overlayed_def)
  have ov: "ov_flat_state ov = fs" "ov_fork_tree ov = t" "ov_block_id ov = p"
    by (simp_all add: frame(1-3) FlatState_overlayed_def)
  have cs: "OverlayedFlatState_into_changeset ov = ov_changeset ov" by (simp add: OverlayedFlatState_into_changeset_def)
  have edited: "child = through" if "HashMap_get (ov_changeset ov) k = Some w" for w
  proof -
    have "map_of (rev (ov_changeset ov)) k = Some w" using that inv by (simp add: map_of_rev_distinct)
    from fork_tree.get_after_apply [OF assms(1-4) this] that show ?thesis
      by (simp add: assms(8,9) cs OverlayedFlatState_get_def)
  qed
  have "HashMap_get (ov_changeset ov) k \<noteq> None" if "k \<in> fst ` set (map edit_pair es)"
    using that by (simp add: assms(7) overlay_changeset_edited)
  moreover have "child = through" if "complete_fork_tree F good par"
    unfolding assms(8,9) by (rule complete_fork_tree.commit_child [OF that assms(2,3) inv ov assms(4-6)])
  moreover have "v = u" if u: "through = Ok u" and v: "child = Ok v" for u v
  proof (cases "HashMap_get (ov_changeset ov) k")
    case None
    with u have "MemoryFlatState_get F fs k p t = Ok u" by (simp add: assms(8) OverlayedFlatState_get_def ov)
    from fork_tree.commit_child_sound [OF assms(1-3) inv assms(4-6) v [unfolded assms(9) cs] this] None
    show ?thesis by simp
  qed (use edited u v in simp)
  ultimately show ?thesis using edited by blast
qed

theorem overlay_commit_roundtrip_witness:
  "let ov = fold edit_overlay [Edit_insert 7 1] (FlatState_overlayed demo_state (4 :: nat) deep_tree);
       cs = OverlayedFlatState_into_changeset ov
   in MemoryFlatState_get (search_ForkTree pair_ident)
        (snd (MemoryFlatState_apply (search_ForkTree pair_ident) demo_state cs 5 deep_tree)) 8 5 deep_tree =
      OverlayedFlatState_get (MemoryFlatState_FlatState (search_ForkTree pair_ident)) ov 8 \<and>
      MemoryFlatState_get (MemoryForkTree_ForkTree pair_ident)
        (snd (MemoryFlatState_apply (MemoryForkTree_ForkTree pair_ident) demo_state cs 5 deep_tree)) 7 5 deep_tree =
      OverlayedFlatState_get (MemoryFlatState_FlatState (MemoryForkTree_ForkTree pair_ident)) ov 7"
proof -
  have *: "parent_of pair_ident deep_tree 5 = Some 4" "written demo_state 8 5 5 = None"
    "written demo_state 7 5 5 = None" by code_simp+
  from overlay_commit_roundtrip [OF search.fork_tree_axioms wf_deep_tree demo_state_ok(2) _ *(1,2) refl refl refl,
      of "[Edit_insert 7 1]"]
    overlay_commit_roundtrip [OF mft.fork_tree_axioms wf_deep_tree demo_state_ok(1) _ *(1,3) refl refl refl,
      of "[Edit_insert 7 1]"] search.complete_fork_tree_axioms [of pair_ident]
  show ?thesis by (simp add: deep_tree_depths Let_def)
qed

end
