(* ===== verification/MemoryTransactional.thy ===== *)
theory MemoryTransactional
  imports Prelude
begin

text \<open>
  \<open>MemoryTransactional\<close> of \<open>blockchain/src/memory/mod.rs\<close>: two copies of a value, on which
  an operation is run one after the other, so that a failed operation can be undone.

  An operation (the closure \<open>f\<close>) is a function from the value to its result and the changed
  value: it may change the value before it fails. \<open>deref_mut\<close> lends out the first copy; what
  the borrower does to it is the argument \<open>g\<close>.

  \<open>atomic\<close> is the abstract meaning of a transaction on a single value, and the locale
  \<open>transactional\<close> the contract that clients rely on.
\<close>

type_synonym ('a, 'r, 'e) operation = "'a \<Rightarrow> ('r, 'e) Result \<times> 'a"

record 'a MemoryTransactional =
  tx_first :: 'a
  tx_second :: 'a

definition MemoryTransactional_new :: "'a \<Rightarrow> 'a MemoryTransactional" where
  "MemoryTransactional_new inner = \<lparr>tx_first = inner, tx_second = inner\<rparr>"

definition MemoryTransactional_apply ::
  "'a MemoryTransactional \<Rightarrow> ('a, 'r, 'e) operation \<Rightarrow> ('r, 'e) Result \<times> 'a MemoryTransactional" where
  "MemoryTransactional_apply t f =
     (case f (tx_first t) of
        (Ok first_ret, a) \<Rightarrow>
          (case f (tx_second t) of
             (Ok _, b) \<Rightarrow> (Ok first_ret, \<lparr>tx_first = a, tx_second = b\<rparr>)
           | (Err _, b) \<Rightarrow> (Ok first_ret, \<lparr>tx_first = a, tx_second = a\<rparr>))
      | (Err first_err, a) \<Rightarrow>
          (Err first_err, \<lparr>tx_first = tx_second t, tx_second = tx_second t\<rparr>))"

definition MemoryTransactional_deref :: "'a MemoryTransactional \<Rightarrow> 'a" where
  "MemoryTransactional_deref t = tx_first t"

definition MemoryTransactional_deref_mut ::
  "('a \<Rightarrow> 'a) \<Rightarrow> 'a MemoryTransactional \<Rightarrow> 'a MemoryTransactional" where
  "MemoryTransactional_deref_mut g t = t\<lparr>tx_first := g (tx_first t)\<rparr>"

section \<open>The contract\<close>

definition atomic :: "('a, 'r, 'e) operation \<Rightarrow> ('a, 'r, 'e) operation" where
  "atomic f a = (case f a of (Ok r, a') \<Rightarrow> (Ok r, a') | (Err e, _) \<Rightarrow> (Err e, a))"

text \<open>Running a list of operations one after the other, with their results.\<close>

fun run_ops ::
  "('s \<Rightarrow> ('a, 'r, 'e) operation \<Rightarrow> ('r, 'e) Result \<times> 's) \<Rightarrow> 's \<Rightarrow> ('a, 'r, 'e) operation list \<Rightarrow>
     ('r, 'e) Result list \<times> 's" where
  "run_ops run s [] = ([], s)"
| "run_ops run s (f # fs) =
     (let (r, s1) = run s f; (rs, s2) = run_ops run s1 fs in (r # rs, s2))"

definition synced :: "'a MemoryTransactional \<Rightarrow> bool" where
  "synced t \<longleftrightarrow> tx_first t = tx_second t"

lemma atomic_Err: "atomic f a = (Err e, a') \<Longrightarrow> a' = a"
  by (auto simp: atomic_def split: prod.splits Result.splits)

lemma atomic_Ok: "atomic f a = (Ok r, a') \<longleftrightarrow> f a = (Ok r, a')"
  by (auto simp: atomic_def split: prod.splits Result.splits)

locale transactional =
  fixes start :: "'a \<Rightarrow> 'tx"
    and view :: "'tx \<Rightarrow> 'a"
    and run :: "'tx \<Rightarrow> ('a, 'r, 'e) operation \<Rightarrow> ('r, 'e) Result \<times> 'tx"
    and stable :: "'tx \<Rightarrow> bool"
  assumes start: "stable (start a)" "view (start a) = a"
    and run_stable: "stable t \<Longrightarrow> stable (snd (run t f))"
    and run_atomic: "stable t \<Longrightarrow> map_prod id view (run t f) = atomic f (view t)"
begin

lemma run_failed: "stable t \<Longrightarrow> run t f = (Err e, t') \<Longrightarrow> view t' = view t"
  using run_atomic [of t f] atomic_Err by (metis map_prod_simp id_apply)

lemma run_succeeded: "stable t \<Longrightarrow> run t f = (Ok r, t') \<Longrightarrow> f (view t) = (Ok r, view t')"
  using run_atomic [of t f] by (metis map_prod_simp id_apply atomic_Ok)

lemma run_ops_atomic:
  "stable t \<Longrightarrow> map_prod id view (run_ops run t fs) = run_ops (\<lambda>a f. atomic f a) (view t) fs"
proof (induction fs arbitrary: t)
  case (Cons f fs)
  obtain r t1 where r: "run t f = (r, t1)" by fastforce
  then have "atomic f (view t) = (r, view t1)" "stable t1"
    using run_atomic [OF Cons.prems, of f] run_stable [OF Cons.prems, of f] by simp_all
  with Cons.IH [of t1] r show ?case by (auto simp: Let_def split: prod.splits)
qed simp

lemma run_ops_stable: "stable t \<Longrightarrow> stable (snd (run_ops run t fs))"
proof (induction fs arbitrary: t)
  case (Cons f fs)
  obtain r t1 where r: "run t f = (r, t1)" by fastforce
  then have "stable t1" using run_stable [OF Cons.prems, of f] by simp
  with Cons.IH [of t1] r show ?case by (auto simp: Let_def split: prod.splits)
qed simp

lemma run_ops_inv:
  assumes "stable t" "P (view t)" "\<And>f a r a'. f \<in> set fs \<Longrightarrow> P a \<Longrightarrow> f a = (Ok r, a') \<Longrightarrow> P a'"
  shows "P (view (snd (run_ops run t fs)))"
  using assms
proof (induction fs arbitrary: t)
  case (Cons f fs)
  obtain r t1 where r: "run t f = (r, t1)" by fastforce
  have "P (view t1)"
  proof (cases r)
    case (Ok x)
    with run_succeeded [OF Cons.prems(1), of f] r Cons.prems(2,3) show ?thesis by auto
  next
    case (Err e)
    with run_failed [OF Cons.prems(1), of f] r Cons.prems(2) show ?thesis by auto
  qed
  moreover have "stable t1" using run_stable [OF Cons.prems(1), of f] r by simp
  ultimately have "P (view (snd (run_ops run t1 fs)))"
    using Cons.prems(3) by (intro Cons.IH) auto
  with r show ?case by (auto simp: Let_def split: prod.splits)
qed simp

end

lemma MemoryTransactional_apply_synced:
  assumes "synced t"
  shows "MemoryTransactional_apply t f =
    (let (r, a) = atomic f (tx_first t) in (r, \<lparr>tx_first = a, tx_second = a\<rparr>))"
  using assms
  by (auto simp: synced_def MemoryTransactional_apply_def atomic_def split: prod.splits Result.splits)

interpretation mtx: transactional MemoryTransactional_new MemoryTransactional_deref
  MemoryTransactional_apply synced
  by unfold_locales
    (auto simp: MemoryTransactional_apply_synced Let_def MemoryTransactional_new_def
      MemoryTransactional_deref_def synced_def split: prod.splits)

section \<open>Properties\<close>

text \<open>C4. A sequence of transactions on a fresh \<open>MemoryTransactional\<close> is observably the same
  sequence of atomic operations on the single value it was created with: the same results, and
  the value read through \<open>Deref\<close> at the end is the one in which every successful operation took
  effect and every failed one left no trace, even if it had changed the value before failing. At
  the end the two copies are equal.\<close>

theorem transactions_refine_atomic:
  "map_prod id MemoryTransactional_deref
     (run_ops MemoryTransactional_apply (MemoryTransactional_new a) fs) =
   run_ops (\<lambda>a f. atomic f a) a fs \<and>
   synced (snd (run_ops MemoryTransactional_apply (MemoryTransactional_new a) fs))"
  using mtx.run_ops_atomic [OF mtx.start(1), of a fs] mtx.run_ops_stable [OF mtx.start(1), of a fs]
  by (simp add: mtx.start(2))

text \<open>From synchronised copies, \<open>apply\<close> leaves synchronised copies; it returns what the
  operation returns, keeps the operation's changes on success and restores both copies exactly
  on failure.\<close>

lemma apply_rolls_back:
  assumes "synced t"
  shows "case f (tx_first t) of
      (Ok r, a) \<Rightarrow> MemoryTransactional_apply t f = (Ok r, \<lparr>tx_first = a, tx_second = a\<rparr>)
    | (Err e, _) \<Rightarrow> MemoryTransactional_apply t f = (Err e, t)"
  using assms
  by (auto simp: MemoryTransactional_apply_synced atomic_def synced_def split: prod.splits Result.splits)

text \<open>With copies that a borrower of \<open>deref_mut\<close> has made different, a failed operation
  discards what the borrower did (both copies become the old second one), and a success on the
  first copy alone is copied over the second; after either the copies agree.\<close>

lemma apply_after_deref_mut:
  assumes "fst (f (g (tx_first t))) = Err e \<or>
    fst (f (g (tx_first t))) = Ok r \<and> fst (f (tx_second t)) = Err e"
  shows "synced (snd (MemoryTransactional_apply (MemoryTransactional_deref_mut g t) f)) \<and>
    MemoryTransactional_deref (snd (MemoryTransactional_apply (MemoryTransactional_deref_mut g t) f)) =
      (if is_ok (fst (f (g (tx_first t)))) then snd (f (g (tx_first t))) else tx_second t)"
  using assms
  by (auto simp: MemoryTransactional_apply_def MemoryTransactional_deref_mut_def synced_def
      MemoryTransactional_deref_def split: prod.splits Result.splits)



end
