(* ===== verification/SimpleChain.thy ===== *)
theory SimpleChain
  imports StateProperties MemoryTransactional
begin

text \<open>
  The chain of \<open>blockchain/tests/simple.rs\<close>, which composes the fork tree, the flat state, the
  overlay and the transaction: block import (\<open>trait ImportBlock\<close>) and block building
  (\<open>trait BlockBuilder\<close>).

  \<open>import_block\<close> is the closure that \<open>Chain::import\<close> runs in a transaction; it inserts the
  block into the fork tree, collects its extrinsics in an overlay at the parent, and applies the
  changeset at the block. Block numbers wrap around as in a release build. The run of the test
  itself is in \<open>ChainProperties\<close>.
\<close>

datatype Seal = ValidSeal | InvalidSeal

record BlockId =
  id_fork :: u32
  id_number :: u32

datatype Extrinsic = Set_ext u32 u32

record Block =
  blk_seal :: Seal
  blk_id :: BlockId
  blk_parent_id :: "BlockId option"
  blk_number :: u32
  blk_extrinsics :: "Extrinsic list"

record Header =
  hdr_seal :: Seal
  hdr_id :: BlockId
  hdr_parent_id :: "BlockId option"
  hdr_number :: u32

definition Block_Identified :: "(Block, BlockId) Identified" where
  "Block_Identified = \<lparr>block_id = blk_id, block_parent_id = blk_parent_id\<rparr>"

definition Block_key :: "Block \<Rightarrow> u32" where
  "Block_key b = blk_number b"

definition Block_Keyed :: "(Block, u32) Keyed" where
  "Block_Keyed = \<lparr>block_key = Block_key\<rparr>"

definition Block_header :: "Block \<Rightarrow> Header" where
  "Block_header b =
     \<lparr>hdr_seal = blk_seal b, hdr_id = blk_id b, hdr_parent_id = blk_parent_id b,
      hdr_number = blk_number b\<rparr>"

definition Block_Headered :: "(Block, Header) Headered" where
  "Block_Headered = \<lparr>block_header = Block_header\<rparr>"

record ChainData =
  cd_fork_tree :: "(Block, BlockId) MemoryForkTree"
  cd_state :: "(u32, u32, BlockId) MemoryFlatState"

record Chain =
  chain_data :: "ChainData MemoryTransactional"

datatype ChainError =
    BadSeal
  | CantImportGenesis
  | ForkTreeInsert MemoryForkTreeInsertError
  | ForkTreeQuery MemoryForkTreeQueryError

abbreviation BlockTree :: "((Block, BlockId) MemoryForkTree, Block, BlockId, MemoryForkTreeQueryError) ForkTree" where
  "BlockTree \<equiv> MemoryForkTree_ForkTree Block_Identified"

fun apply_extrinsics ::
  "Extrinsic list \<Rightarrow> ('fs, 'ft, 'id, u32, u32) OverlayedFlatState \<Rightarrow>
     ('fs, 'ft, 'id, u32, u32) OverlayedFlatState" where
  "apply_extrinsics [] overlay = overlay"
| "apply_extrinsics (Set_ext key v # es) overlay =
     apply_extrinsics es (OverlayedFlatState_insert key v overlay)"

definition block_changeset ::
  "Block \<Rightarrow> (u32, u32, BlockId) MemoryFlatState \<Rightarrow> (Block, BlockId) MemoryForkTree \<Rightarrow> BlockId \<Rightarrow>
     (u32 \<times> u32 option) list" where
  "block_changeset b st ft parent_id =
     OverlayedFlatState_into_changeset
       (apply_extrinsics (blk_extrinsics b) (FlatState_overlayed st parent_id ft))"

definition import_block ::
  "(usize list \<Rightarrow> usize list) \<Rightarrow> Block \<Rightarrow> (ChainData, unit, ChainError) operation" where
  "import_block unq b d =
     (case blk_parent_id b of
        None \<Rightarrow> (Err CantImportGenesis, d)
      | Some parent_id \<Rightarrow>
          (case MemoryForkTree_insert unq Block_Identified (cd_fork_tree d) b of
             (Err e, ft) \<Rightarrow> (Err (ForkTreeInsert e), d\<lparr>cd_fork_tree := ft\<rparr>)
           | (Ok _, ft) \<Rightarrow>
               (case MemoryFlatState_apply BlockTree (cd_state d)
                       (block_changeset b (cd_state d) ft parent_id) (blk_id b) ft of
                  (Err e, st) \<Rightarrow> (Err (ForkTreeQuery e), d\<lparr>cd_fork_tree := ft, cd_state := st\<rparr>)
                | (Ok _, st) \<Rightarrow> (Ok (), d\<lparr>cd_fork_tree := ft, cd_state := st\<rparr>))))"

definition Chain_import ::
  "(usize list \<Rightarrow> usize list) \<Rightarrow> Chain \<Rightarrow> Block \<Rightarrow> (unit, ChainError) Result \<times> Chain" where
  "Chain_import unq c b =
     (if blk_seal b \<noteq> ValidSeal then (Err BadSeal, c)
      else let (r, tx) = MemoryTransactional_apply (chain_data c) (import_block unq b)
           in (r, c\<lparr>chain_data := tx\<rparr>))"

definition Chain_ImportBlock :: "(usize list \<Rightarrow> usize list) \<Rightarrow> (Chain, Block, ChainError) ImportBlock" where
  "Chain_ImportBlock unq = \<lparr>ib_import = Chain_import unq\<rparr>"

section \<open>Block building\<close>

record ChainBlockBuilder =
  bb_chain :: Chain
  bb_block :: Block
  bb_overlay :: "((u32, u32, BlockId) MemoryFlatState, (Block, BlockId) MemoryForkTree, BlockId, u32, u32)
     OverlayedFlatState"

definition ChainBlockBuilder_initialize ::
  "Chain \<Rightarrow> BlockId \<Rightarrow> (ChainBlockBuilder, ChainError) Result" where
  "ChainBlockBuilder_initialize c parent_id =
     (let d = MemoryTransactional_deref (chain_data c) in
      and_then (map_err ForkTreeQuery (MemoryForkTree_block (cd_fork_tree d) parent_id)) (\<lambda>_.
      Ok \<lparr>bb_chain = c,
          bb_block = \<lparr>blk_seal = InvalidSeal,
                      blk_id = \<lparr>id_fork = id_fork parent_id, id_number = id_number parent_id + 1\<rparr>,
                      blk_parent_id = Some parent_id,
                      blk_number = id_number parent_id + 1,
                      blk_extrinsics = []\<rparr>,
          bb_overlay = FlatState_overlayed (cd_state d) parent_id (cd_fork_tree d)\<rparr>))"

definition ChainBlockBuilder_apply_extrinsic ::
  "Extrinsic \<Rightarrow> ChainBlockBuilder \<Rightarrow> (unit, ChainError) Result \<times> ChainBlockBuilder" where
  "ChainBlockBuilder_apply_extrinsic e bb =
     (Ok (), bb\<lparr>bb_block := (bb_block bb)\<lparr>blk_extrinsics := blk_extrinsics (bb_block bb) @ [e]\<rparr>\<rparr>)"

definition ChainBlockBuilder_finalize ::
  "Seal \<Rightarrow> ChainBlockBuilder \<Rightarrow> (Block, ChainError) Result" where
  "ChainBlockBuilder_finalize post_log bb = Ok ((bb_block bb)\<lparr>blk_seal := post_log\<rparr>)"

definition ChainBlockBuilder_BlockBuilder ::
  "(ChainBlockBuilder, Chain, Block, BlockId, Extrinsic, ChainError, unit, Seal) BlockBuilder" where
  "ChainBlockBuilder_BlockBuilder =
     \<lparr>bbd_initialize = (\<lambda>c parent_id _. ChainBlockBuilder_initialize c parent_id),
      bbd_apply_extrinsic = ChainBlockBuilder_apply_extrinsic,
      bbd_finalize = ChainBlockBuilder_finalize\<rparr>"

section \<open>The test\<close>

definition genesis_block :: Block where
  "genesis_block =
     \<lparr>blk_seal = InvalidSeal, blk_id = \<lparr>id_fork = 0, id_number = 0\<rparr>, blk_parent_id = None,
      blk_number = 0, blk_extrinsics = []\<rparr>"

definition import_genesis ::
  "(usize list \<Rightarrow> usize list) \<Rightarrow> (u32 \<times> u32 option) list \<Rightarrow> (ChainData, unit, ChainError) operation" where
  "import_genesis unq genesis_state d =
     (case MemoryForkTree_insert unq Block_Identified (cd_fork_tree d) genesis_block of
        (Err e, ft) \<Rightarrow> (Err (ForkTreeInsert e), d\<lparr>cd_fork_tree := ft\<rparr>)
      | (Ok _, ft) \<Rightarrow>
          (case MemoryFlatState_apply BlockTree (cd_state d) genesis_state (blk_id genesis_block) ft of
             (Err e, st) \<Rightarrow> (Err (ForkTreeQuery e), d\<lparr>cd_fork_tree := ft, cd_state := st\<rparr>)
           | (Ok _, st) \<Rightarrow> (Ok (), d\<lparr>cd_fork_tree := ft, cd_state := st\<rparr>)))"

definition Chain_new :: Chain where
  "Chain_new =
     \<lparr>chain_data = MemoryTransactional_new
        \<lparr>cd_fork_tree = MemoryForkTree_new, cd_state = MemoryFlatState_new\<rparr>\<rparr>"

definition Chain_with_genesis ::
  "(usize list \<Rightarrow> usize list) \<Rightarrow> (u32 \<times> u32 option) list \<Rightarrow> (unit, ChainError) Result \<times> Chain" where
  "Chain_with_genesis unq genesis_state =
     (let (r, tx) = MemoryTransactional_apply (chain_data Chain_new) (import_genesis unq genesis_state)
      in (r, Chain_new\<lparr>chain_data := tx\<rparr>))"

definition Chain_get :: "Chain \<Rightarrow> u32 \<Rightarrow> BlockId \<Rightarrow> (u32 option, ChainError) Result" where
  "Chain_get c key i =
     (let d = MemoryTransactional_deref (chain_data c) in
      map_err ForkTreeQuery (MemoryFlatState_get BlockTree (cd_state d) key i (cd_fork_tree d)))"

section \<open>Invariant\<close>

definition data_ok :: "ChainData \<Rightarrow> bool" where
  "data_ok d \<longleftrightarrow> wf_tree Block_Identified (cd_fork_tree d) \<and>
     memory_state_ok Block_Identified (cd_fork_tree d) (cd_state d)"

abbreviation chain_view :: "Chain \<Rightarrow> ChainData" where
  "chain_view c \<equiv> MemoryTransactional_deref (chain_data c)"

definition chain_ok :: "Chain \<Rightarrow> bool" where
  "chain_ok c \<longleftrightarrow> synced (chain_data c) \<and> data_ok (chain_view c)"

text \<open>A block that may be imported: its identifier is new and its depth does not overflow.\<close>

definition fresh_block :: "Chain \<Rightarrow> Block \<Rightarrow> bool" where
  "fresh_block c b \<longleftrightarrow>
     HashMap_get (mft_blocks (cd_fork_tree (chain_view c))) (blk_id b) = None \<and>
     depth_room Block_Identified (cd_fork_tree (chain_view c)) b"

lemma Block_Identified_sel [simp]:
  "block_id Block_Identified = blk_id" "block_parent_id Block_Identified = blk_parent_id"
  by (simp_all add: Block_Identified_def)

fun extrinsic_edit :: "Extrinsic \<Rightarrow> (u32, u32) overlay_edit" where
  "extrinsic_edit (Set_ext k v) = Edit_insert k v"

lemma apply_extrinsics_edits:
  "apply_extrinsics es ov = fold edit_overlay (map extrinsic_edit es) ov"
  by (induction es ov rule: apply_extrinsics.induct) simp_all

lemma HashMap_get_block_changeset:
  "HashMap_invar (block_changeset b st ft p) \<and>
   HashMap_get (block_changeset b st ft p) k =
     map_of (rev (map (edit_pair \<circ> extrinsic_edit) (blk_extrinsics b))) k"
proof -
  let ?S = "\<lparr>fs_get = (\<lambda>_ _ _ _. Err ())\<rparr>"
  let ?ov = "fold edit_overlay (map extrinsic_edit (blk_extrinsics b)) (FlatState_overlayed st p ft)"
  have "HashMap_invar (ov_changeset ?ov)"
    by (simp add: overlay_edits_frame FlatState_overlayed_def)
  moreover have "OverlayedFlatState_get ?S ?ov k =
      (case map_of (rev (map (edit_pair \<circ> extrinsic_edit) (blk_extrinsics b))) k of
         Some v \<Rightarrow> Ok v | None \<Rightarrow> Err ())"
    by (simp add: overlay_get_edits)
      (simp add: OverlayedFlatState_get_def FlatState_overlayed_def split: option.split)
  ultimately show ?thesis
    by (auto simp: block_changeset_def apply_extrinsics_edits OverlayedFlatState_into_changeset_def
        OverlayedFlatState_get_def split: option.splits)
qed

text \<open>The successful case of the closure.\<close>

lemma import_block_Ok:
  assumes "import_block unq b d = (Ok (), d')"
  shows "\<exists>p ft. blk_parent_id b = Some p \<and>
    MemoryForkTree_insert unq Block_Identified (cd_fork_tree d) b = (Ok (), ft) \<and>
    d' = d\<lparr>cd_fork_tree := ft,
           cd_state := snd (MemoryFlatState_apply BlockTree (cd_state d)
             (block_changeset b (cd_state d) ft p) (blk_id b) ft)\<rparr>"
  using assms by (auto simp: import_block_def split: option.splits prod.splits Result.splits)

lemma insert_Ok_depths:
  assumes ins: "MemoryForkTree_insert unq I t b = (Ok (), t')"
    and fresh: "HashMap_get (mft_blocks t) (block_id I b) = None"
  shows "MemoryForkTree_block_depth t j = Ok d \<Longrightarrow> MemoryForkTree_block_depth t' j = Ok d"
    and "\<exists>d. MemoryForkTree_block_depth t' (block_id I b) = Ok d \<and> child_depth I t b = Ok d"
proof -
  obtain e as where t': "t' = link_block I b (new_item b e as) t" "child_depth I t b = Ok e"
    using insert_Ok_link_block [OF ins] by blast
  show "\<exists>d. MemoryForkTree_block_depth t' (block_id I b) = Ok d \<and> child_depth I t b = Ok d"
    by (simp add: t' block_depth_link_block)
  assume d: "MemoryForkTree_block_depth t j = Ok d"
  with fresh have "j \<noteq> block_id I b" by (auto simp: block_depth_eq_Ok)
  with d show "MemoryForkTree_block_depth t' j = Ok d" by (simp add: t'(1) block_depth_link_block)
qed

lemma insert_Ok_state:
  assumes "memory_state_ok I t fs" "MemoryForkTree_insert unq I t b = (Ok (), t')"
    and "HashMap_get (mft_blocks t) (block_id I b) = None"
  shows "memory_state_ok I t' fs"
  using assms(1) insert_Ok_depths(1) [OF assms(2,3)] by (rule state_ok_grow)

lemma insert_Ok_wf:
  assumes "wf_tree I t" "MemoryForkTree_insert unq I t b = (Ok (), t')"
    and "HashMap_get (mft_blocks t) (block_id I b) = None" "depth_room I t b"
  shows "wf_tree I t'"
  using wf_insert [OF assms(1,3,4), of unq] unfolding assms(2) snd_conv .

lemma import_block_data_ok:
  assumes ok: "data_ok d" and fresh: "HashMap_get (mft_blocks (cd_fork_tree d)) (blk_id b) = None"
    and room: "depth_room Block_Identified (cd_fork_tree d) b"
    and imp: "import_block unq b d = (Ok (), d')"
  shows "data_ok d'"
proof -
  obtain p ft where *: "MemoryForkTree_insert unq Block_Identified (cd_fork_tree d) b = (Ok (), ft)"
    "d' = d\<lparr>cd_fork_tree := ft,
           cd_state := snd (MemoryFlatState_apply BlockTree (cd_state d)
             (block_changeset b (cd_state d) ft p) (blk_id b) ft)\<rparr>"
    using import_block_Ok [OF imp] by blast
  have fresh': "HashMap_get (mft_blocks (cd_fork_tree d)) (block_id Block_Identified b) = None"
    using fresh by simp
  have d: "wf_tree Block_Identified (cd_fork_tree d)"
    "memory_state_ok Block_Identified (cd_fork_tree d) (cd_state d)"
    using ok by (simp_all only: data_ok_def)
  note wf = insert_Ok_wf [OF d(1) *(1) fresh' room]
  note st = state_ok_apply [OF insert_Ok_state [OF d(2) *(1) fresh']]
  show ?thesis using wf st unfolding data_ok_def *(2) by simp
qed

lemma Chain_import_cases:
  assumes "synced (chain_data c)"
  shows "(blk_seal b = ValidSeal \<and>
      (\<exists>d'. import_block unq b (chain_view c) = (Ok (), d') \<and>
        Chain_import unq c b = (Ok (), c\<lparr>chain_data := MemoryTransactional_new d'\<rparr>))) \<or>
    (\<exists>e. Chain_import unq c b = (Err e, c))"
proof (cases "blk_seal b = ValidSeal")
  case True
  obtain r d' where r: "import_block unq b (chain_view c) = (r, d')" by fastforce
  have c: "chain_data c = MemoryTransactional_new (chain_view c)"
    using assms by (simp add: synced_def MemoryTransactional_new_def MemoryTransactional_deref_def)
  have first: "tx_first (chain_data c) = chain_view c" by (simp add: MemoryTransactional_deref_def)
  show ?thesis
  proof (cases r)
    case (Ok u)
    with True r show ?thesis
      by (simp add: Chain_import_def MemoryTransactional_apply_synced [OF assms] first atomic_def
          MemoryTransactional_new_def)
  next
    case (Err e)
    have "c\<lparr>chain_data := chain_data c\<rparr> = c" by simp
    with Err True r c show ?thesis
      by (simp add: Chain_import_def MemoryTransactional_apply_synced [OF assms] first atomic_def
          MemoryTransactional_new_def)
  qed
qed (simp add: Chain_import_def)

lemma Chain_import_failed:
  assumes "synced (chain_data c)" "fst (import_block unq b (chain_view c)) = Err e"
    and "blk_seal b = ValidSeal"
  shows "Chain_import unq c b = (Err e, c)"
proof -
  have "fst (Chain_import unq c b) = Err e"
    using assms by (auto simp: Chain_import_def MemoryTransactional_apply_synced [OF assms(1)]
        MemoryTransactional_deref_def atomic_def split: prod.splits)
  with Chain_import_cases [OF assms(1), of b unq] show ?thesis by auto
qed

lemma block_changeset_last:
  assumes "map_of (rev (map (\<lambda>e. case e of Set_ext k v \<Rightarrow> (k, v)) (blk_extrinsics b))) k = Some v"
  shows "map_of (rev (block_changeset b st ft p)) k = Some (Some v)"
proof -
  have pair: "(edit_pair \<circ> extrinsic_edit) = (\<lambda>(k, v). (k, Some v)) \<circ> (\<lambda>e. case e of Set_ext k v \<Rightarrow> (k, v))"
    by (auto simp: fun_eq_iff split: Extrinsic.splits)
  have "map_of (map (\<lambda>(k, v). (k, Some v)) xs) k = map_option Some (map_of xs k)" for xs :: "(u32 \<times> u32) list"
    by (induction xs) auto
  with assms have "HashMap_get (block_changeset b st ft p) k = Some (Some v)"
    using HashMap_get_block_changeset [of b st ft p k] by (simp add: pair rev_map map_map [symmetric] del: map_map)
  then show ?thesis using HashMap_get_block_changeset [of b st ft p k] by (simp add: map_of_rev_distinct)
qed

end
