(* ===== verification/ChainProperties.thy ===== *)
theory ChainProperties
  imports SimpleChain
begin

text \<open>
  The properties of block import and of block building: an import is atomic and keeps the
  invariant of the chain, the values a block sets are read back at it and nowhere at its depth or
  above, every import at a depth that needs a skip list entry is refused, and the run of the test
  \<open>basic_build_and_import\<close>.
\<close>

lemma chain_import_Ok:
  assumes ok: "chain_ok c" and imp: "Chain_import unq c b = (Ok (), c')"
  shows "import_block unq b (chain_view c) = (Ok (), chain_view c') \<and> synced (chain_data c')"
proof -
  from ok have "synced (chain_data c)" by (simp only: chain_ok_def)
  from Chain_import_cases [OF this, of b unq] imp show ?thesis
    by (auto simp: MemoryTransactional_new_def MemoryTransactional_deref_def synced_def)
qed

lemma chain_import_steps:
  assumes ok: "chain_ok c" and fresh: "fresh_block c b" and imp: "Chain_import unq c b = (Ok (), c')"
  obtains p where "blk_parent_id b = Some p"
    and "wf_tree Block_Identified (cd_fork_tree (chain_view c'))"
    and "memory_state_ok Block_Identified (cd_fork_tree (chain_view c')) (cd_state (chain_view c))"
    and "cd_state (chain_view c') = snd (MemoryFlatState_apply BlockTree (cd_state (chain_view c))
       (block_changeset b (cd_state (chain_view c)) (cd_fork_tree (chain_view c')) p) (blk_id b)
       (cd_fork_tree (chain_view c')))"
    and "MemoryForkTree_insert unq Block_Identified (cd_fork_tree (chain_view c)) b =
       (Ok (), cd_fork_tree (chain_view c'))"
proof -
  from chain_import_Ok [OF ok imp, THEN conjunct1, THEN import_block_Ok]
  obtain p ft where p: "blk_parent_id b = Some p"
    "MemoryForkTree_insert unq Block_Identified (cd_fork_tree (chain_view c)) b = (Ok (), ft)"
    "chain_view c' = (chain_view c)\<lparr>cd_fork_tree := ft,
       cd_state := snd (MemoryFlatState_apply BlockTree (cd_state (chain_view c))
         (block_changeset b (cd_state (chain_view c)) ft p) (blk_id b) ft)\<rparr>"
    by blast
  have ft: "cd_fork_tree (chain_view c') = ft" by (simp add: p(3))
  have fr: "HashMap_get (mft_blocks (cd_fork_tree (chain_view c))) (block_id Block_Identified b) = None"
    "depth_room Block_Identified (cd_fork_tree (chain_view c)) b"
    using fresh by (simp_all add: fresh_block_def)
  have d: "wf_tree Block_Identified (cd_fork_tree (chain_view c))"
    "memory_state_ok Block_Identified (cd_fork_tree (chain_view c)) (cd_state (chain_view c))"
    using ok by (simp_all only: chain_ok_def data_ok_def)
  from p(1) insert_Ok_wf [OF d(1) p(2) fr] insert_Ok_state [OF d(2) p(2) fr(1)]
  show thesis by (rule that [unfolded ft]) (simp_all add: p(2,3))
qed

lemma chain_ok_imported:
  assumes "chain_ok c" "fresh_block c b" "Chain_import unq c b = (Ok (), c')"
  shows "chain_ok c'"
proof -
  from chain_import_Ok [OF assms(1,3)]
  have i: "import_block unq b (chain_view c) = (Ok (), chain_view c')" "synced (chain_data c')" by simp_all
  have "data_ok (chain_view c)" using assms(1) by (simp only: chain_ok_def)
  with assms(2) i(1) have "data_ok (chain_view c')"
    unfolding fresh_block_def by (blast intro: import_block_data_ok)
  with i(2) show ?thesis by (simp add: chain_ok_def)
qed

lemma get_imported:
  assumes "chain_ok c" "fresh_block c b" "Chain_import unq c b = (Ok (), c')"
    and "map_of (rev (map (\<lambda>e. case e of Set_ext k v \<Rightarrow> (k, v)) (blk_extrinsics b))) k = Some v"
  shows "Chain_get c' k (blk_id b) = Ok (Some v)"
proof -
  obtain p where p: "wf_tree Block_Identified (cd_fork_tree (chain_view c'))"
    "memory_state_ok Block_Identified (cd_fork_tree (chain_view c')) (cd_state (chain_view c))"
    "cd_state (chain_view c') = snd (MemoryFlatState_apply BlockTree (cd_state (chain_view c))
       (block_changeset b (cd_state (chain_view c)) (cd_fork_tree (chain_view c')) p) (blk_id b)
       (cd_fork_tree (chain_view c')))"
    "MemoryForkTree_insert unq Block_Identified (cd_fork_tree (chain_view c)) b =
       (Ok (), cd_fork_tree (chain_view c'))"
    using chain_import_steps [OF assms(1-3)] by metis
  have "HashMap_get (mft_blocks (cd_fork_tree (chain_view c))) (block_id Block_Identified b) = None"
    using assms(2) by (simp add: fresh_block_def)
  from insert_Ok_depths(2) [OF p(4) this]
  obtain d where d: "MemoryForkTree_block_depth (cd_fork_tree (chain_view c')) (blk_id b) = Ok d" by auto
  note cs = block_changeset_last [OF assms(4), of "cd_state (chain_view c)" "cd_fork_tree (chain_view c')" p]
  show ?thesis
    using mft.get_after_apply [OF p(1,2) _ cs] d by (simp add: Chain_get_def p(3))
qed

section \<open>A concrete chain\<close>

definition demo_chain :: Chain where
  "demo_chain = snd (Chain_with_genesis unique_first [(100, Some 100), (200, Some 200)])"

definition demo_block :: "u32 \<Rightarrow> u32 \<Rightarrow> Extrinsic list \<Rightarrow> Block" where
  "demo_block f n es =
     \<lparr>blk_seal = ValidSeal, blk_id = \<lparr>id_fork = f, id_number = n\<rparr>,
      blk_parent_id = Some \<lparr>id_fork = 0, id_number = n - 1\<rparr>, blk_number = n, blk_extrinsics = es\<rparr>"

definition demo_chain3 :: Chain where
  "demo_chain3 = fold (\<lambda>n c. snd (Chain_import unique_first c (demo_block 0 n [Set_ext 100 n]))) [1, 2, 3] demo_chain"

lemma demo_chain_ok: "chain_ok demo_chain" "chain_ok demo_chain3"
  by code_simp+

section \<open>Properties\<close>

text \<open>C5. Importing a block is atomic: it either succeeds and the new chain satisfies the
  invariant (a well-formed fork tree whose state entries all belong to known blocks, and equal
  copies of the transactional data), or it fails and the chain is exactly the old one.\<close>

theorem import_atomic:
  assumes "chain_ok c" "fresh_block c b"
  shows "case Chain_import unq c b of (Ok _, c') \<Rightarrow> chain_ok c' | (Err _, c') \<Rightarrow> c' = c"
proof (cases "fst (Chain_import unq c b)")
  case (Ok u)
  then obtain c' where c': "Chain_import unq c b = (Ok (), c')" by (cases "Chain_import unq c b") auto
  from chain_ok_imported [OF assms c'] show ?thesis by (simp add: c')
next
  case (Err e)
  have "synced (chain_data c)" using assms(1) by (simp only: chain_ok_def)
  from Chain_import_cases [OF this, of b unq] Err show ?thesis by auto
qed

theorem import_atomic_witness:
  "chain_ok (snd (Chain_import unique_first demo_chain (demo_block 0 1 [Set_ext 100 200]))) \<and>
   snd (Chain_import unique_first demo_chain (demo_block 0 2 [])) = demo_chain"
proof -
  have f: "fresh_block demo_chain (demo_block 0 1 [Set_ext 100 200])"
    "fresh_block demo_chain (demo_block 0 2 [])" by code_simp+
  have r: "is_ok (fst (Chain_import unique_first demo_chain (demo_block 0 1 [Set_ext 100 200])))"
    "\<not> is_ok (fst (Chain_import unique_first demo_chain (demo_block 0 2 [])))" by code_simp+
  from f [THEN import_atomic [OF demo_chain_ok(1)], of unique_first] r show ?thesis
    by (auto split: prod.splits Result.splits)
qed

text \<open>C28. After a block is imported, reading any key at that block returns the value of the last
  extrinsic of the block that sets it.\<close>

theorem import_then_get:
  assumes "chain_ok c" "fresh_block c b" "Chain_import unq c b = (Ok (), c')"
    and "map_of (rev (map (\<lambda>e. case e of Set_ext k v \<Rightarrow> (k, v)) (blk_extrinsics b))) k = Some v"
  shows "Chain_get c' k (blk_id b) = Ok (Some v)"
  using assms by (rule get_imported)

theorem import_then_get_witness:
  "Chain_get (snd (Chain_import unique_first demo_chain
     (demo_block 0 1 [Set_ext 100 200, Set_ext 100 201]))) 100 \<lparr>id_fork = 0, id_number = 1\<rparr> = Ok (Some 201)"
proof -
  let ?b = "demo_block 0 1 [Set_ext 100 200, Set_ext 100 201]"
  have f: "fresh_block demo_chain ?b" by code_simp
  have "fst (Chain_import unique_first demo_chain ?b) = Ok ()" by code_simp
  then have i: "Chain_import unique_first demo_chain ?b =
    (Ok (), snd (Chain_import unique_first demo_chain ?b))" by (simp add: prod_eq_iff)
  show ?thesis
    using import_then_get [OF demo_chain_ok(1) f i, of 100 201] by (simp add: demo_block_def)
qed

text \<open>Fork isolation of imports: importing a block changes no read at a known block whose
  depth is at most that of the imported block.\<close>

lemma import_isolated:
  assumes "chain_ok c" "fresh_block c b" "Chain_import unq c b = (Ok (), c')"
    and "MemoryForkTree_block_depth (cd_fork_tree (chain_view c)) j = Ok e"
    and "child_depth Block_Identified (cd_fork_tree (chain_view c)) b = Ok d" "e \<le> d"
  shows "Chain_get c' k j = Chain_get c k j"
proof -
  obtain p where p: "wf_tree Block_Identified (cd_fork_tree (chain_view c'))"
    "memory_state_ok Block_Identified (cd_fork_tree (chain_view c')) (cd_state (chain_view c))"
    "cd_state (chain_view c') = snd (MemoryFlatState_apply BlockTree (cd_state (chain_view c))
       (block_changeset b (cd_state (chain_view c)) (cd_fork_tree (chain_view c')) p) (blk_id b)
       (cd_fork_tree (chain_view c')))"
    "MemoryForkTree_insert unq Block_Identified (cd_fork_tree (chain_view c)) b =
       (Ok (), cd_fork_tree (chain_view c'))"
    using chain_import_steps [OF assms(1-3)] by metis
  have old: "wf_tree Block_Identified (cd_fork_tree (chain_view c))"
    "memory_state_ok Block_Identified (cd_fork_tree (chain_view c)) (cd_state (chain_view c))"
    using assms(1) by (simp_all only: chain_ok_def data_ok_def)
  have fr: "HashMap_get (mft_blocks (cd_fork_tree (chain_view c))) (block_id Block_Identified b) = None"
    using assms(2) by (simp add: fresh_block_def)
  note keep = insert_Ok_depths(1) [OF p(4) fr]
  have d: "MemoryForkTree_block_depth (cd_fork_tree (chain_view c')) (blk_id b) = Ok d"
    using insert_Ok_depths(2) [OF p(4) fr] assms(5) by auto
  have "j \<noteq> blk_id b" using fr assms(4) by (auto simp: block_depth_eq_Ok)
  from get_memory_isolated [OF p(1,2) d keep [OF assms(4)] assms(6) this]
    get_memory_grow [OF old(1) p(1) old(2) assms(4) keep]
  show ?thesis by (simp add: Chain_get_def Let_def p(3))
qed

text \<open>C29. An import whose parent is one below a multiple of four always fails with
  \<open>InvalidAncestorDepth\<close> and leaves the chain as it was: the chain cannot grow past depth
  three.\<close>

theorem import_stops_at_skip_depth:
  assumes "chain_ok c" "fresh_block c b" "unique_spec unq" "blk_seal b = ValidSeal"
    and "blk_parent_id b = Some p"
    and "MemoryForkTree_block_depth (cd_fork_tree (chain_view c)) p = Ok e" "4 dvd Suc (unat e)"
  shows "Chain_import unq c b = (Err (ForkTreeInsert (Query InvalidAncestorDepth)), c)"
proof -
  let ?t = "cd_fork_tree (chain_view c)"
  have wf: "wf_tree Block_Identified ?t" using assms(1) by (simp only: chain_ok_def data_ok_def)
  have sync: "synced (chain_data c)" using assms(1) by (simp only: chain_ok_def)
  have room: "depth_room Block_Identified ?t b" using assms(2) by (simp only: fresh_block_def)
  obtain pit where "HashMap_get (mft_blocks ?t) p = Some pit" "item_depth pit = e"
    using assms(6) by (auto simp: block_depth_eq_Ok)
  with assms(5,7) have "fst (MemoryForkTree_insert unq Block_Identified ?t b) = Err (Query InvalidAncestorDepth)"
    by (simp add: insert_eq_outcome [OF wf assms(3) room] insert_outcome_def)
  then have "fst (import_block unq b (chain_view c)) = Err (ForkTreeInsert (Query InvalidAncestorDepth))"
    using assms(5) by (auto simp: import_block_def split: prod.splits)
  then show ?thesis using assms(4) by (rule Chain_import_failed [OF sync])
qed

theorem import_stops_at_skip_depth_witness:
  "Chain_import unique_first demo_chain3 (demo_block 0 4 []) =
     (Err (ForkTreeInsert (Query InvalidAncestorDepth)), demo_chain3)"
proof -
  have "fresh_block demo_chain3 (demo_block 0 4 [])" by code_simp
  moreover have "blk_seal (demo_block 0 4 []) = ValidSeal"
    "blk_parent_id (demo_block 0 4 []) = Some \<lparr>id_fork = 0, id_number = 3\<rparr>" by code_simp+
  moreover have "MemoryForkTree_block_depth (cd_fork_tree (chain_view demo_chain3))
    \<lparr>id_fork = 0, id_number = 3\<rparr> = Ok 3" by code_simp
  ultimately show ?thesis
    using import_stops_at_skip_depth [OF demo_chain_ok(2) _ unique_first_spec] by simp
qed

text \<open>The test \<open>basic_build_and_import\<close> runs to completion: with a genesis that sets key
  100 to 100, a block built on it that sets it to 200 and a fork of that block that sets it to 300
  are both imported, and the key reads 100, 200 and 300 at the three blocks.\<close>

lemma basic_build_and_import:
  "let (r0, c0) = Chain_with_genesis unique_first [(100, Some 100), (200, Some 200)];
       built = and_then (ChainBlockBuilder_initialize c0 (blk_id genesis_block)) (\<lambda>bb.
         ChainBlockBuilder_finalize ValidSeal (snd (ChainBlockBuilder_apply_extrinsic (Set_ext 100 200) bb)));
       block = (case built of Ok b \<Rightarrow> b | Err _ \<Rightarrow> genesis_block);
       (r1, c1) = Chain_import unique_first c0 block;
       block2 = block\<lparr>blk_id := \<lparr>id_fork = 1, id_number = id_number (blk_id block)\<rparr>,
                      blk_extrinsics := [Set_ext 100 300]\<rparr>;
       (r2, c2) = Chain_import unique_first c1 block2
   in r0 = Ok () \<and> is_ok built \<and> r1 = Ok () \<and> r2 = Ok () \<and>
      Chain_get c1 100 (blk_id genesis_block) = Ok (Some 100) \<and>
      Chain_get c1 100 (blk_id block) = Ok (Some 200) \<and>
      Chain_get c2 100 (blk_id block2) = Ok (Some 300)"
  by code_simp

end
