(* ===== verification/BlockBuilding.thy ===== *)
theory BlockBuilding
  imports ChainProperties
begin

text \<open>
  Building a block and importing it, over the dictionaries of \<open>BlockBuilder\<close> and \<open>ImportBlock\<close>: the
  way in which a node produces its own blocks. The interpretations discharge the contracts of
  insertion and of block building for the memory fork tree and for the builder of the test chain.
\<close>

interpretation ftm: fork_tree_mut "MemoryForkTree_ForkTreeMut unq I" I
proof (unfold_locales, goal_cases)
  case (1 t b t')
  then have "MemoryForkTree_insert unq I t b = (Ok (), t')" by (simp add: MemoryForkTree_ForkTreeMut_def)
  from insert_Ok_link_block [OF this] show ?case
    by (auto simp: MemoryForkTree_ForkTreeMut_def MemoryForkTree_ForkTree_def block_link_block)
next
  case (2 t b t' j)
  then have "MemoryForkTree_insert unq I t b = (Ok (), t')" by (simp add: MemoryForkTree_ForkTreeMut_def)
  from insert_Ok_link_block [OF this] 2(2) show ?case
    by (auto simp: MemoryForkTree_ForkTreeMut_def MemoryForkTree_ForkTree_def block_link_block)
qed

interpretation cbb: block_builder ChainBlockBuilder_BlockBuilder Block_Identified blk_extrinsics bb_block
  by unfold_locales
    (auto simp: ChainBlockBuilder_BlockBuilder_def ChainBlockBuilder_initialize_def
      ChainBlockBuilder_apply_extrinsic_def ChainBlockBuilder_finalize_def Let_def and_then_eq_Ok)

section \<open>Building\<close>

text \<open>The identifier that the builder gives a block: the same fork, the next number.\<close>

definition next_id :: "BlockId \<Rightarrow> BlockId" where
  "next_id p = \<lparr>id_fork = id_fork p, id_number = id_number p + 1\<rparr>"

lemma apply_all_builder:
  "apply_all ChainBlockBuilder_BlockBuilder es bb =
     Ok (bb\<lparr>bb_block := (bb_block bb)\<lparr>blk_extrinsics := blk_extrinsics (bb_block bb) @ es\<rparr>\<rparr>)"
  by (induction es arbitrary: bb)
    (simp_all add: ChainBlockBuilder_BlockBuilder_def ChainBlockBuilder_apply_extrinsic_def)

lemma build_block_known:
  assumes "MemoryForkTree_block (cd_fork_tree (chain_view c)) p = Ok pb"
  shows "build_block ChainBlockBuilder_BlockBuilder c p () es seal =
    Ok \<lparr>blk_seal = seal, blk_id = next_id p, blk_parent_id = Some p, blk_number = id_number p + 1,
        blk_extrinsics = es\<rparr>"
  using assms
  by (simp add: build_block_def apply_all_builder)
    (simp add: ChainBlockBuilder_BlockBuilder_def ChainBlockBuilder_initialize_def
      ChainBlockBuilder_finalize_def Let_def next_id_def)

text \<open>An import at a depth that needs no skip list entry succeeds.\<close>

lemma import_succeeds:
  assumes ok: "chain_ok c" and fresh: "fresh_block c b" and unq: "unique_spec unq"
    and b: "blk_seal b = ValidSeal" "blk_parent_id b = Some p"
    and p: "MemoryForkTree_block_depth (cd_fork_tree (chain_view c)) p = Ok e" "\<not> 4 dvd Suc (unat e)"
  shows "\<exists>c'. Chain_import unq c b = (Ok (), c')"
proof -
  let ?t = "cd_fork_tree (chain_view c)"
  have wf: "wf_tree Block_Identified ?t" using ok by (simp only: chain_ok_def data_ok_def)
  have sync: "synced (chain_data c)" using ok by (simp only: chain_ok_def)
  have fr: "HashMap_get (mft_blocks ?t) (block_id Block_Identified b) = None"
    "depth_room Block_Identified ?t b" using fresh by (simp_all add: fresh_block_def)
  obtain pit where "HashMap_get (mft_blocks ?t) p = Some pit" "item_depth pit = e"
    using p(1) by (auto simp: block_depth_eq_Ok)
  with b(2) p(2) obtain t' where t': "MemoryForkTree_insert unq Block_Identified ?t b = (Ok (), t')"
    by (simp add: insert_eq_outcome [OF wf unq fr(2)] insert_outcome_def)
  obtain d where "MemoryForkTree_block_depth t' (blk_id b) = Ok d"
    using insert_Ok_depths(2) [OF t' fr(1)] by auto
  then obtain d' where "import_block unq b (chain_view c) = (Ok (), d')"
    by (simp add: import_block_def b(2) t' MemoryFlatState_apply_def MemoryForkTree_ForkTree_def)
  then have "fst (Chain_import unq c b) = Ok ()"
    using b(1) by (auto simp: Chain_import_def MemoryTransactional_apply_synced [OF sync]
        MemoryTransactional_deref_def atomic_def split: prod.splits)
  then show ?thesis by (simp add: prod_eq_iff)
qed

section \<open>Properties\<close>

text \<open>C8. Building and importing a block: on any consistent chain a builder at a known parent whose
  depth plus one is no multiple of four, sealed with a valid seal, returns the block with the given
  extrinsics on that parent; if its identifier is new, the import of that block succeeds and keeps
  the chain consistent, the block is then found, and every key the extrinsics set reads at it the
  value that was set last.\<close>

theorem build_then_import:
  assumes "chain_ok c" "unique_spec unq"
    and "MemoryForkTree_block_depth (cd_fork_tree (chain_view c)) p = Ok e" "e < - 1" "\<not> 4 dvd Suc (unat e)"
    and "HashMap_get (mft_blocks (cd_fork_tree (chain_view c))) (next_id p) = None"
  shows "\<exists>b c'. build_block ChainBlockBuilder_BlockBuilder c p () es ValidSeal = Ok b \<and>
    blk_parent_id b = Some p \<and> blk_extrinsics b = es \<and>
    ib_import (Chain_ImportBlock unq) c b = (Ok (), c') \<and> chain_ok c' \<and>
    MemoryForkTree_block (cd_fork_tree (chain_view c')) (blk_id b) = Ok b \<and>
    (\<forall>k v. map_of (rev (map (\<lambda>x. case x of Set_ext k v \<Rightarrow> (k, v)) es)) k = Some v \<longrightarrow>
       Chain_get c' k (blk_id b) = Ok (Some v))"
proof -
  let ?t = "cd_fork_tree (chain_view c)"
  obtain pit where pit: "HashMap_get (mft_blocks ?t) p = Some pit" "item_depth pit = e"
    using assms(3) by (auto simp: block_depth_eq_Ok)
  then have pb: "MemoryForkTree_block ?t p = Ok (item_block pit)" by (simp add: MemoryForkTree_block_def)
  obtain b where b: "build_block ChainBlockBuilder_BlockBuilder c p () es ValidSeal = Ok b"
    "blk_seal b = ValidSeal" "blk_id b = next_id p" by (simp add: build_block_known [OF pb])
  have c: "blk_parent_id b = Some p" "blk_extrinsics b = es" using cbb.build_block_content [OF b(1)] by simp_all
  have fresh: "fresh_block c b" using assms(4,6) pit b(3) c(1) by (simp add: fresh_block_def depth_room_def)
  obtain c' where imp: "Chain_import unq c b = (Ok (), c')"
    using import_succeeds [OF assms(1) fresh assms(2) b(2) c(1) assms(3,5)] by blast
  obtain q where "MemoryForkTree_insert unq Block_Identified ?t b = (Ok (), cd_fork_tree (chain_view c'))"
    using chain_import_steps [OF assms(1) fresh imp] by metis
  then have "MemoryForkTree_block (cd_fork_tree (chain_view c')) (blk_id b) = Ok b"
    using ftm.insert_found [of unq Block_Identified ?t b]
    by (simp add: MemoryForkTree_ForkTreeMut_def MemoryForkTree_ForkTree_def)
  with b(1) c imp chain_ok_imported [OF assms(1) fresh imp] get_imported [OF assms(1) fresh imp] show ?thesis
    by (auto simp: Chain_ImportBlock_def)
qed

theorem build_then_import_witness:
  "\<exists>b c'. build_block ChainBlockBuilder_BlockBuilder demo_chain (blk_id genesis_block) ()
      [Set_ext 100 200, Set_ext 100 201] ValidSeal = Ok b \<and>
    ib_import (Chain_ImportBlock unique_first) demo_chain b = (Ok (), c') \<and>
    Chain_get c' 100 (blk_id b) = Ok (Some 201)"
proof -
  have "MemoryForkTree_block_depth (cd_fork_tree (chain_view demo_chain)) (blk_id genesis_block) = Ok 0"
    "HashMap_get (mft_blocks (cd_fork_tree (chain_view demo_chain))) (next_id (blk_id genesis_block)) = None"
    "(0 :: usize) < - 1" by code_simp+
  from build_then_import [OF demo_chain_ok(1) unique_first_spec this(1,3) _ this(2),
      of "[Set_ext 100 200, Set_ext 100 201]"]
  show ?thesis by auto
qed

end
