(* ===== verification/NetTypes.thy ===== *)
theory NetTypes
  imports Prelude
begin

text \<open>
  Data shared by the components of \<open>blocknet\<close>: polls, durations, and the identifiers that
  \<open>libp2p\<close> supplies. Peer identifiers and addresses are byte strings to this code, which only
  compares and copies them; a connection identifier is a machine word; the name of a stream
  protocol is a string.

  The locale \<open>event_source\<close> is the contract between a component that queues events and the
  runtime that polls it: pending events are reported one per poll, before anything else.
\<close>

datatype 'a Poll = Ready 'a | Pending

datatype ('a, 'b) Either = Left 'a | Right 'b

type_synonym PeerId = "u8 list"
type_synonym Multiaddr = "u8 list"
type_synonym ConnectionId = usize
type_synonym StreamProtocol = string

record Duration =
  dur_secs :: u64
  dur_nanos :: u32

definition Duration_from_secs :: "u64 \<Rightarrow> Duration" where
  "Duration_from_secs s = \<lparr>dur_secs = s, dur_nanos = 0\<rparr>"

definition Duration_ZERO :: Duration where
  "Duration_ZERO = \<lparr>dur_secs = 0, dur_nanos = 0\<rparr>"

text \<open>\<open>polls\<close> polls as often as there are contexts in the list.\<close>

primrec polls :: "('cx \<Rightarrow> 's \<Rightarrow> 'e Poll \<times> 's) \<Rightarrow> 'cx list \<Rightarrow> 's \<Rightarrow> 'e Poll list \<times> 's" where
  "polls poll [] s = ([], s)"
| "polls poll (cx # cxs) s =
     (let (e, s') = poll cx s; (es, s'') = polls poll cxs s' in (e # es, s''))"

locale event_source =
  fixes poll :: "'cx \<Rightarrow> 's \<Rightarrow> 'e Poll \<times> 's" and pending :: "'s \<Rightarrow> 'e list"
    and set_pending :: "'e list \<Rightarrow> 's \<Rightarrow> 's"
  assumes poll_pending: "pending s = e # es \<Longrightarrow> poll cx s = (Ready e, set_pending es s)"
    and pending_set_pending: "pending (set_pending es s) = es"
    and set_pending_again: "set_pending es (set_pending fs s) = set_pending es s"
    and set_pending_same: "set_pending (pending s) s = s"
begin

lemma polls_drain:
  assumes "length cxs \<le> length (pending s)"
  shows "polls poll cxs s = (map Ready (take (length cxs) (pending s)),
    set_pending (drop (length cxs) (pending s)) s)"
  using assms
proof (induction cxs arbitrary: s)
  case (Cons cx cxs)
  then obtain e es where "pending s = e # es" by (cases "pending s") auto
  with Cons show ?case
    by (simp add: poll_pending pending_set_pending set_pending_again)
qed (simp add: set_pending_same)

end

end
