(* ===== verification/PeerInfoCodec.thy ===== *)
theory PeerInfoCodec
  imports NetTypes
begin

text \<open>
  \<open>blocknet/src/libp2p/peer_info\<close>: the trait \<open>Info\<close> and the errors of \<open>protocol.rs\<close>, the trait
  \<open>Codec\<close> of \<open>codec.rs\<close> and its JSON implementation \<open>json.rs\<close>.

  A stream that is read is the bytes it yields and the error, if any, that follows them; without
  an error the stream ends there. A stream that is written is the bytes it has taken and, if it
  is going to fail, the number of further bytes it takes before it fails. \<open>serde_json\<close> is the
  parameter \<open>Serde\<close>; its errors are already in the printed form that the code stores.
\<close>

record ('info, 'push) Info =
  info_merge :: "'info \<Rightarrow> 'push \<Rightarrow> 'info"
  info_into_push :: "'info \<Rightarrow> 'push"

type_synonym io_error = string

datatype UpgradeError =
    Codec_err string
  | Io io_error
  | StreamClosed
  | Multiaddr_err string
  | PublicKey_err string

record ('io, 'info, 'push) Codec =
  codec_read_info :: "'io \<Rightarrow> ('info, UpgradeError) Result"
  codec_read_push_info :: "'io \<Rightarrow> ('push, UpgradeError) Result"
  codec_write_info :: "'io \<Rightarrow> 'info \<Rightarrow> (unit, UpgradeError) Result \<times> 'io"
  codec_write_push_info :: "'io \<Rightarrow> 'push \<Rightarrow> (unit, UpgradeError) Result \<times> 'io"

section \<open>Streams\<close>

record io_stream =
  in_bytes :: "u8 list"
  in_error :: "io_error option"
  out_bytes :: "u8 list"
  out_error :: "(nat \<times> io_error) option"

text \<open>\<open>io.take(limit).read_to_end\<close>: the error behind the limit is never seen.\<close>

definition take_read_to_end :: "u64 \<Rightarrow> io_stream \<Rightarrow> (u8 list, io_error) Result" where
  "take_read_to_end limit io =
     (if unat limit \<le> length (in_bytes io) then Ok (take (unat limit) (in_bytes io))
      else case in_error io of None \<Rightarrow> Ok (in_bytes io) | Some e \<Rightarrow> Err e)"

definition write_all :: "u8 list \<Rightarrow> io_stream \<Rightarrow> (unit, io_error) Result \<times> io_stream" where
  "write_all data io =
     (case out_error io of
        None \<Rightarrow> (Ok (), io\<lparr>out_bytes := out_bytes io @ data\<rparr>)
      | Some (room, e) \<Rightarrow>
          if length data \<le> room
          then (Ok (), io\<lparr>out_bytes := out_bytes io @ data, out_error := Some (room - length data, e)\<rparr>)
          else (Err e, io\<lparr>out_bytes := out_bytes io @ take room data, out_error := Some (0, e)\<rparr>))"

record 'a Serde =
  to_vec :: "'a \<Rightarrow> (u8 list, string) Result"
  from_slice :: "u8 list \<Rightarrow> ('a, string) Result"

section \<open>The JSON codec\<close>

definition SIZE_MAXIMUM :: u64 where
  "SIZE_MAXIMUM = 1024 * 1024"

definition read_info :: "'info Serde \<Rightarrow> io_stream \<Rightarrow> ('info, UpgradeError) Result" where
  "read_info J io =
     and_then (map_err Io (take_read_to_end SIZE_MAXIMUM io)) (\<lambda>vec.
     and_then (map_err Codec_err (from_slice J vec)) (\<lambda>info. Ok info))"

definition read_push_info :: "'push Serde \<Rightarrow> io_stream \<Rightarrow> ('push, UpgradeError) Result" where
  "read_push_info J io =
     and_then (map_err Io (take_read_to_end SIZE_MAXIMUM io)) (\<lambda>vec.
     and_then (map_err Codec_err (from_slice J vec)) (\<lambda>info. Ok info))"

definition write_info ::
  "'info Serde \<Rightarrow> io_stream \<Rightarrow> 'info \<Rightarrow> (unit, UpgradeError) Result \<times> io_stream" where
  "write_info J io info =
     (case map_err Codec_err (to_vec J info) of
        Err e \<Rightarrow> (Err e, io)
      | Ok data \<Rightarrow> (case write_all data io of (r, io') \<Rightarrow> (map_err Io r, io')))"

definition write_push_info ::
  "'push Serde \<Rightarrow> io_stream \<Rightarrow> 'push \<Rightarrow> (unit, UpgradeError) Result \<times> io_stream" where
  "write_push_info J io info =
     (case map_err Codec_err (to_vec J info) of
        Err e \<Rightarrow> (Err e, io)
      | Ok data \<Rightarrow> (case write_all data io of (r, io') \<Rightarrow> (map_err Io r, io')))"

definition json_Codec :: "'info Serde \<Rightarrow> 'push Serde \<Rightarrow> (io_stream, 'info, 'push) Codec" where
  "json_Codec J K =
     \<lparr>codec_read_info = read_info J, codec_read_push_info = read_push_info K,
      codec_write_info = write_info J, codec_write_push_info = write_push_info K\<rparr>"

section \<open>Round trip\<close>

text \<open>The documented behaviour of \<open>serde_json\<close> that the protocol relies on: what was serialised
  is parsed back to the same value.\<close>

definition serde_roundtrip :: "'a Serde \<Rightarrow> bool" where
  "serde_roundtrip J \<longleftrightarrow> (\<forall>x v. to_vec J x = Ok v \<longrightarrow> from_slice J v = Ok x)"

text \<open>A fresh stream to write to, and the stream that the remote side then reads.\<close>

definition out_stream :: "(nat \<times> io_error) option \<Rightarrow> io_stream" where
  "out_stream err = \<lparr>in_bytes = [], in_error = None, out_bytes = [], out_error = err\<rparr>"

definition remote_end :: "io_stream \<Rightarrow> io_stream" where
  "remote_end io = \<lparr>in_bytes = out_bytes io, in_error = None, out_bytes = [], out_error = None\<rparr>"

text \<open>What a codec promises to the handlers on both sides of a stream: whatever was written
  without an error and fits the limit is read back.\<close>

locale info_codec =
  fixes C :: "('io, 'info, 'push) Codec" and fresh :: "'io \<Rightarrow> bool" and far :: "'io \<Rightarrow> 'io"
    and fits :: "'info \<Rightarrow> bool" and fits_push :: "'push \<Rightarrow> bool"
  assumes info_roundtrip:
      "fresh io \<Longrightarrow> fits i \<Longrightarrow> codec_write_info C io i = (Ok (), io') \<Longrightarrow> codec_read_info C (far io') = Ok i"
    and push_roundtrip:
      "fresh io \<Longrightarrow> fits_push p \<Longrightarrow> codec_write_push_info C io p = (Ok (), io') \<Longrightarrow>
         codec_read_push_info C (far io') = Ok p"
begin

lemma write_info_injective:
  assumes "fresh io" "fits i" "fits j"
    and "codec_write_info C io i = (Ok (), io')" "codec_write_info C io j = (Ok (), io'')"
    and "far io' = far io''"
  shows "i = j"
  using info_roundtrip [OF assms(1,2,4)] info_roundtrip [OF assms(1,3,5)] assms(6) by simp

end

definition fits_limit :: "'a Serde \<Rightarrow> 'a \<Rightarrow> bool" where
  "fits_limit J x \<longleftrightarrow> (case to_vec J x of Ok v \<Rightarrow> length v \<le> unat SIZE_MAXIMUM | Err _ \<Rightarrow> True)"

lemma write_all_Ok:
  "write_all data io = (Ok (), io') \<Longrightarrow> out_bytes io' = out_bytes io @ data"
  by (auto simp: write_all_def split: option.splits prod.splits if_splits)

lemma take_read_to_end_all:
  "length (in_bytes io) \<le> unat limit \<Longrightarrow> in_error io = None \<Longrightarrow> take_read_to_end limit io = Ok (in_bytes io)"
  by (auto simp: take_read_to_end_def)

lemma take_read_to_end_code [code]:
  "take_read_to_end limit io =
     (if uint limit \<le> int (length (in_bytes io)) then Ok (take (nat (uint limit)) (in_bytes io))
      else case in_error io of None \<Rightarrow> Ok (in_bytes io) | Some e \<Rightarrow> Err e)"
proof -
  have "uint limit = int (unat limit)" by simp
  then show ?thesis unfolding take_read_to_end_def by (simp only: of_nat_le_iff nat_int)
qed

lemma json_roundtrip:
  assumes "serde_roundtrip J" "out_bytes io = []" "fits_limit J i" "write_info J io i = (Ok (), io')"
  shows "read_info J (remote_end io') = Ok i"
proof -
  obtain data where data: "to_vec J i = Ok data" "write_all data io = (Ok (), io')"
    using assms(4) by (auto simp: write_info_def split: Result.splits prod.splits elim!: map_err.elims)
  have "in_bytes (remote_end io') = data" "in_error (remote_end io') = None"
    using write_all_Ok [OF data(2)] assms(2) by (simp_all add: remote_end_def)
  moreover have "length data \<le> unat SIZE_MAXIMUM" using assms(3) data(1) by (simp add: fits_limit_def)
  moreover have "from_slice J data = Ok i" using assms(1) data(1) by (simp add: serde_roundtrip_def)
  ultimately show ?thesis by (simp add: read_info_def take_read_to_end_all)
qed

lemma push_same_format:
  "read_push_info = read_info" "write_push_info = write_info"
  by (simp_all add: fun_eq_iff read_push_info_def read_info_def write_push_info_def write_info_def)

interpretation json: info_codec "json_Codec J K" "\<lambda>io. out_bytes io = []" remote_end
  "\<lambda>i. serde_roundtrip J \<and> fits_limit J i" "\<lambda>p. serde_roundtrip K \<and> fits_limit K p"
  by unfold_locales (simp_all add: json_Codec_def push_same_format json_roundtrip)

text \<open>A concrete \<open>Serde\<close>: JSON of a byte string without the quoting.\<close>

definition raw_serde :: "u8 list Serde" where
  "raw_serde = \<lparr>to_vec = Ok, from_slice = Ok\<rparr>"

lemma raw_serde_roundtrip: "serde_roundtrip raw_serde"
  by (simp add: serde_roundtrip_def raw_serde_def)

text \<open>C33. Round trip of the JSON codec: an information that the codec wrote to a fresh stream
  without an error and whose encoding is at most 1 MiB is read back unchanged from the other end
  of the stream, given that \<open>serde_json\<close> parses what it printed.\<close>

theorem json_codec_roundtrip:
  assumes "serde_roundtrip J" "out_bytes io = []" "to_vec J i = Ok data" "length data \<le> 1024 * 1024"
    and "codec_write_info (json_Codec J K) io i = (Ok (), io')"
  shows "codec_read_info (json_Codec J K) (remote_end io') = Ok i"
proof (rule json.info_roundtrip [OF assms(2) _ assms(5)])
  have "unat SIZE_MAXIMUM = 1024 * 1024" by (simp add: SIZE_MAXIMUM_def)
  then show "serde_roundtrip J \<and> fits_limit J i"
    using assms(1,3,4) by (simp add: fits_limit_def)
qed

theorem json_codec_roundtrip_witness:
  "codec_read_info (json_Codec raw_serde raw_serde)
     (remote_end (snd (codec_write_info (json_Codec raw_serde raw_serde) (out_stream (Some (7, ''reset''))) [1, 2, 3])))
   = Ok [1, 2, 3]"
proof -
  let ?C = "json_Codec raw_serde raw_serde" and ?io = "out_stream (Some (7, ''reset''))"
  have "codec_write_info ?C ?io [1, 2, 3] = (Ok (), snd (codec_write_info ?C ?io [1, 2, 3]))"
    "out_bytes ?io = []" by code_simp+
  then show ?thesis
    using json_codec_roundtrip [OF raw_serde_roundtrip, of ?io "[1, 2, 3]" "[1, 2, 3]"]
    by (simp add: raw_serde_def)
qed

text \<open>The size limit of the JSON codec: reading never passes more than 1 MiB to the parser and
  depends on nothing behind that bound; below the bound an error of the stream is reported as
  \<open>Io\<close>, and otherwise the bytes up to the end of the stream are parsed.\<close>

lemma json_read_bounded:
  "read_info J io =
     (let bytes = take (1024 * 1024) (in_bytes io) in
      case (if length bytes < 1024 * 1024 then in_error io else None) of
        Some e \<Rightarrow> Err (Io e)
      | None \<Rightarrow> (case from_slice J bytes of Ok i \<Rightarrow> Ok i | Err e \<Rightarrow> Err (Codec_err e)))"
proof -
  have "unat SIZE_MAXIMUM = 1024 * 1024" by (simp add: SIZE_MAXIMUM_def)
  then show ?thesis
    by (auto simp: read_info_def take_read_to_end_def Let_def split: option.split Result.split)
qed

end
