(* ===== verification/PeerInfoHandler.thy ===== *)
theory PeerInfoHandler
  imports PeerInfoCodec "HOL-Library.Multiset"
begin

text \<open>
  The connection handler of \<open>blocknet/src/libp2p/peer_info/handler.rs\<close>, one per connection: it
  asks the remote for its information when a timer fires, answers requests with the local
  information, pushes the local information when told to, and reports what it received.

  Code of other packages is the parameter \<open>HandlerLib\<close>: the bounded set of futures, the timer and
  the set of supported protocols. A future that the handler creates is one of the four codec
  calls; \<open>future_output\<close> is the value it resolves to, with the code's \<open>map_ok\<close>. A dial error
  cannot carry an upgrade error, whose type is empty, so that \<open>dial_error\<close> has the other
  alternatives only. What is only logged is left out of the operations.
\<close>

section \<open>Data\<close>

datatype 'e StreamUpgradeError = Timeout | Apply 'e | NegotiationFailed | Io_failed io_error

datatype dial_error = Dial_Timeout | Dial_NegotiationFailed | Dial_Io io_error

fun map_upgrade_err :: "dial_error \<Rightarrow> UpgradeError StreamUpgradeError" where
  "map_upgrade_err Dial_Timeout = Timeout"
| "map_upgrade_err Dial_NegotiationFailed = NegotiationFailed"
| "map_upgrade_err (Dial_Io e) = Io_failed e"

datatype InEvent = AddressesChanged "Multiaddr set" | Push

datatype ('info, 'push) Handler_Event =
    Identified 'info
  | Identification
  | IdentificationPushed 'push
  | IdentificationError "UpgradeError StreamUpgradeError"

datatype ('info, 'push) Success =
    SentIdentify
  | ReceivedIdentify 'info
  | SentIdentifyPush 'push
  | ReceivedIdentifyPush 'push

datatype ('info, 'push) ConnectionHandlerEvent =
    OutboundSubstreamRequest "(StreamProtocol, StreamProtocol) Either"
  | NotifyBehaviour "('info, 'push) Handler_Event"

datatype ('io, 'chg) ConnectionEvent =
    FullyNegotiatedInbound "('io, 'io) Either"
  | FullyNegotiatedOutbound "('io, 'io) Either"
  | DialUpgradeError dial_error
  | LocalProtocolsChange 'chg
  | OtherConnectionEvent

datatype ('io, 'info, 'push) stream_future =
    Fut_write_info 'io 'info
  | Fut_read_push_info 'io
  | Fut_read_info 'io
  | Fut_write_push_info 'io 'push

fun future_output ::
  "('io, 'info, 'push) Codec \<Rightarrow> ('io, 'info, 'push) stream_future \<Rightarrow> (('info, 'push) Success, UpgradeError) Result"
where
  "future_output C (Fut_write_info io info) = map_ok (\<lambda>_. SentIdentify) (fst (codec_write_info C io info))"
| "future_output C (Fut_read_push_info io) = map_ok ReceivedIdentifyPush (codec_read_push_info C io)"
| "future_output C (Fut_read_info io) = map_ok ReceivedIdentify (codec_read_info C io)"
| "future_output C (Fut_write_push_info io info) =
     map_ok (\<lambda>_. SentIdentifyPush info) (fst (codec_write_push_info C io info))"

record ('fs, 'fut, 'out, 'delay, 'sp, 'chg, 'cx) HandlerLib =
  FuturesSet_new :: "Duration \<Rightarrow> usize \<Rightarrow> 'fs"
  FuturesSet_try_push :: "'fut \<Rightarrow> 'fs \<Rightarrow> 'fs option"
  FuturesSet_poll :: "'cx \<Rightarrow> 'fs \<Rightarrow> (('out, UpgradeError) Result, unit) Result Poll \<times> 'fs"
  Delay_new :: "Duration \<Rightarrow> 'delay"
  Delay_poll :: "'cx \<Rightarrow> 'delay \<Rightarrow> unit Poll \<times> 'delay"
  Delay_reset :: "Duration \<Rightarrow> 'delay \<Rightarrow> 'delay"
  SupportedProtocols_default :: 'sp
  SupportedProtocols_on_protocols_change :: "'chg \<Rightarrow> 'sp \<Rightarrow> bool \<times> 'sp"

type_synonym ('fs, 'io, 'info, 'push, 'delay, 'sp, 'chg, 'cx) handler_lib =
  "('fs, ('io, 'info, 'push) stream_future, ('info, 'push) Success, 'delay, 'sp, 'chg, 'cx) HandlerLib"

record ('info, 'push, 'fs, 'delay, 'sp) Handler =
  h_remote_peer_id :: PeerId
  h_events :: "('info, 'push) ConnectionHandlerEvent list"
  h_active_streams :: 'fs
  h_trigger_next_identify :: 'delay
  h_exchanged_one_periodic_identify :: bool
  h_interval :: Duration
  h_local_info :: 'info
  h_remote_info :: "'info option"
  h_local_supported_protocols :: 'sp
  h_external_addresses :: "Multiaddr set"
  h_protocol_name :: StreamProtocol
  h_push_protocol_name :: StreamProtocol

section \<open>Operations\<close>

definition STREAM_TIMEOUT :: Duration where
  "STREAM_TIMEOUT = Duration_from_secs 60"

definition MAX_CONCURRENT_STREAMS_PER_CONNECTION :: usize where
  "MAX_CONCURRENT_STREAMS_PER_CONNECTION = 10"

definition Handler_new ::
  "('fs, 'fut, 'out, 'delay, 'sp, 'chg, 'cx) HandlerLib \<Rightarrow> Duration \<Rightarrow> PeerId \<Rightarrow> Multiaddr set \<Rightarrow> 'info \<Rightarrow>
     StreamProtocol \<Rightarrow> StreamProtocol \<Rightarrow> ('info, 'push, 'fs, 'delay, 'sp) Handler" where
  "Handler_new L interval remote_peer_id external_addresses local_info protocol_name push_protocol_name =
     \<lparr>h_remote_peer_id = remote_peer_id,
      h_events = [],
      h_active_streams = FuturesSet_new L STREAM_TIMEOUT MAX_CONCURRENT_STREAMS_PER_CONNECTION,
      h_trigger_next_identify = Delay_new L Duration_ZERO,
      h_exchanged_one_periodic_identify = False,
      h_interval = interval,
      h_local_info = local_info,
      h_remote_info = None,
      h_local_supported_protocols = SupportedProtocols_default L,
      h_external_addresses = external_addresses,
      h_protocol_name = protocol_name,
      h_push_protocol_name = push_protocol_name\<rparr>"

fun on_fully_negotiated_inbound ::
  "('fs, 'io, 'info, 'push, 'delay, 'sp, 'chg, 'cx) handler_lib \<Rightarrow> ('io, 'io) Either \<Rightarrow>
     ('info, 'push, 'fs, 'delay, 'sp) Handler \<Rightarrow> ('info, 'push, 'fs, 'delay, 'sp) Handler" where
  "on_fully_negotiated_inbound L (Left stream) h =
     (case FuturesSet_try_push L (Fut_write_info stream (h_local_info h)) (h_active_streams h) of
        None \<Rightarrow> h
      | Some fs \<Rightarrow> h\<lparr>h_active_streams := fs, h_exchanged_one_periodic_identify := True\<rparr>)"
| "on_fully_negotiated_inbound L (Right stream) h =
     (case FuturesSet_try_push L (Fut_read_push_info stream) (h_active_streams h) of
        None \<Rightarrow> h
      | Some fs \<Rightarrow> h\<lparr>h_active_streams := fs\<rparr>)"

fun on_fully_negotiated_outbound ::
  "('info, 'push) Info \<Rightarrow> ('fs, 'io, 'info, 'push, 'delay, 'sp, 'chg, 'cx) handler_lib \<Rightarrow> ('io, 'io) Either \<Rightarrow>
     ('info, 'push, 'fs, 'delay, 'sp) Handler \<Rightarrow> ('info, 'push, 'fs, 'delay, 'sp) Handler" where
  "on_fully_negotiated_outbound I L (Left stream) h =
     (case FuturesSet_try_push L (Fut_read_info stream) (h_active_streams h) of
        None \<Rightarrow> h
      | Some fs \<Rightarrow> h\<lparr>h_active_streams := fs\<rparr>)"
| "on_fully_negotiated_outbound I L (Right stream) h =
     (let info = info_into_push I (h_local_info h) in
      case FuturesSet_try_push L (Fut_write_push_info stream info) (h_active_streams h) of
        None \<Rightarrow> h
      | Some fs \<Rightarrow> h\<lparr>h_active_streams := fs\<rparr>)"

definition handle_incoming_info ::
  "'info \<Rightarrow> ('info, 'push, 'fs, 'delay, 'sp) Handler \<Rightarrow> ('info, 'push, 'fs, 'delay, 'sp) Handler" where
  "handle_incoming_info info h = h\<lparr>h_remote_info := Some info\<rparr>"

text \<open>The local protocols as they are logged; \<open>iter\<close> is \<open>SupportedProtocols::iter\<close>.\<close>

fun join :: "string \<Rightarrow> string list \<Rightarrow> string" where
  "join sep [] = []"
| "join sep [s] = s"
| "join sep (s # ss) = s @ sep @ join sep ss"

definition local_protocols_to_string ::
  "('sp \<Rightarrow> StreamProtocol list) \<Rightarrow> ('info, 'push, 'fs, 'delay, 'sp) Handler \<Rightarrow> string" where
  "local_protocols_to_string iter h = join '', '' (iter (h_local_supported_protocols h))"

definition listen_protocol ::
  "('info, 'push, 'fs, 'delay, 'sp) Handler \<Rightarrow> StreamProtocol \<times> StreamProtocol" where
  "listen_protocol h = (h_protocol_name h, h_push_protocol_name h)"

fun on_behaviour_event ::
  "InEvent \<Rightarrow> ('info, 'push, 'fs, 'delay, 'sp) Handler \<Rightarrow> ('info, 'push, 'fs, 'delay, 'sp) Handler" where
  "on_behaviour_event (AddressesChanged addresses) h = h\<lparr>h_external_addresses := addresses\<rparr>"
| "on_behaviour_event Push h =
     h\<lparr>h_events := h_events h @ [OutboundSubstreamRequest (Right (h_push_protocol_name h))]\<rparr>"

text \<open>The \<open>match\<close> on the result of polling the active streams.\<close>

fun poll_streams ::
  "('info, 'push) Info \<Rightarrow> ((('info, 'push) Success, UpgradeError) Result, unit) Result Poll \<Rightarrow>
     ('info, 'push, 'fs, 'delay, 'sp) Handler \<Rightarrow>
     ('info, 'push) ConnectionHandlerEvent Poll \<times> ('info, 'push, 'fs, 'delay, 'sp) Handler" where
  "poll_streams I (Ready (Ok (Ok (ReceivedIdentify remote_info)))) h =
     (Ready (NotifyBehaviour (Identified remote_info)), handle_incoming_info remote_info h)"
| "poll_streams I (Ready (Ok (Ok (SentIdentifyPush info)))) h =
     (Ready (NotifyBehaviour (IdentificationPushed info)), h)"
| "poll_streams I (Ready (Ok (Ok SentIdentify))) h = (Ready (NotifyBehaviour Identification), h)"
| "poll_streams I (Ready (Ok (Ok (ReceivedIdentifyPush remote_push_info)))) h =
     (case h_remote_info h of
        Some info \<Rightarrow>
          (let info' = info_merge I info remote_push_info in
           (Ready (NotifyBehaviour (Identified info')), handle_incoming_info info' h))
      | None \<Rightarrow> (Pending, h))"
| "poll_streams I (Ready (Ok (Err e))) h =
     (Ready (NotifyBehaviour (IdentificationError (Apply e))), h)"
| "poll_streams I (Ready (Err _)) h = (Ready (NotifyBehaviour (IdentificationError Timeout)), h)"
| "poll_streams I Pending h = (Pending, h)"

definition Handler_poll ::
  "('info, 'push) Info \<Rightarrow> ('fs, 'io, 'info, 'push, 'delay, 'sp, 'chg, 'cx) handler_lib \<Rightarrow> 'cx \<Rightarrow>
     ('info, 'push, 'fs, 'delay, 'sp) Handler \<Rightarrow>
     ('info, 'push) ConnectionHandlerEvent Poll \<times> ('info, 'push, 'fs, 'delay, 'sp) Handler" where
  "Handler_poll I L cx h =
     (if h_events h \<noteq> [] then (Ready (last (h_events h)), h\<lparr>h_events := butlast (h_events h)\<rparr>)
      else case Delay_poll L cx (h_trigger_next_identify h) of
        (Ready _, delay) \<Rightarrow>
          (Ready (OutboundSubstreamRequest (Left (h_protocol_name h))),
           h\<lparr>h_trigger_next_identify := Delay_reset L (h_interval h) delay\<rparr>)
      | (Pending, delay) \<Rightarrow>
          (case FuturesSet_poll L cx (h_active_streams h) of
             (r, fs) \<Rightarrow> poll_streams I r (h\<lparr>h_trigger_next_identify := delay, h_active_streams := fs\<rparr>)))"

fun on_connection_event ::
  "('info, 'push) Info \<Rightarrow> ('fs, 'io, 'info, 'push, 'delay, 'sp, 'chg, 'cx) handler_lib \<Rightarrow>
     ('io, 'chg) ConnectionEvent \<Rightarrow>
     ('info, 'push, 'fs, 'delay, 'sp) Handler \<Rightarrow> ('info, 'push, 'fs, 'delay, 'sp) Handler" where
  "on_connection_event I L (FullyNegotiatedInbound output) h = on_fully_negotiated_inbound L output h"
| "on_connection_event I L (FullyNegotiatedOutbound output) h = on_fully_negotiated_outbound I L output h"
| "on_connection_event I L (DialUpgradeError error) h =
     h\<lparr>h_events := h_events h @ [NotifyBehaviour (IdentificationError (map_upgrade_err error))],
       h_trigger_next_identify := Delay_reset L (h_interval h) (h_trigger_next_identify h)\<rparr>"
| "on_connection_event I L (LocalProtocolsChange change) h =
     (let (protocols_changed, sp) =
            SupportedProtocols_on_protocols_change L change (h_local_supported_protocols h);
          h' = h\<lparr>h_local_supported_protocols := sp\<rparr>
      in if protocols_changed \<and> h_exchanged_one_periodic_identify h'
         then h'\<lparr>h_events := h_events h' @ [OutboundSubstreamRequest (Right (h_push_protocol_name h'))]\<rparr>
         else h')"
| "on_connection_event I L OtherConnectionEvent h = h"

end
