(* ===== verification/HandlerTraces.thy ===== *)
theory HandlerTraces
  imports PeerInfoHandler
begin

text \<open>
  Runs of a connection handler: the runtime calls its operations in any order, and a trace is the
  list of the events the polls returned. The invariants of the traces say what the reported
  events tell the behaviour, under the documented contract of the bounded set of futures: every
  report is traced to the streams that were negotiated on the connection of the handler.
\<close>

datatype ('io, 'chg, 'cx) handler_input =
    In_connection "('io, 'chg) ConnectionEvent"
  | In_behaviour InEvent
  | In_poll 'cx

fun handler_step ::
  "('info, 'push) Info \<Rightarrow> ('fs, 'io, 'info, 'push, 'delay, 'sp, 'chg, 'cx) handler_lib \<Rightarrow>
     ('io, 'chg, 'cx) handler_input \<Rightarrow> ('info, 'push, 'fs, 'delay, 'sp) Handler \<Rightarrow>
     ('info, 'push) ConnectionHandlerEvent list \<times> ('info, 'push, 'fs, 'delay, 'sp) Handler" where
  "handler_step I L (In_connection e) h = ([], on_connection_event I L e h)"
| "handler_step I L (In_behaviour e) h = ([], on_behaviour_event e h)"
| "handler_step I L (In_poll cx) h =
     (case Handler_poll I L cx h of (Ready e, h') \<Rightarrow> ([e], h') | (Pending, h') \<Rightarrow> ([], h'))"

inductive handler_trace ::
  "('info, 'push) Info \<Rightarrow> ('fs, 'io, 'info, 'push, 'delay, 'sp, 'chg, 'cx) handler_lib \<Rightarrow>
     ('info, 'push, 'fs, 'delay, 'sp) Handler \<Rightarrow> ('info, 'push) ConnectionHandlerEvent list \<Rightarrow>
     ('info, 'push, 'fs, 'delay, 'sp) Handler \<Rightarrow> bool"
  for I L h0
where
  start: "handler_trace I L h0 [] h0"
| step: "handler_trace I L h0 outs h \<Longrightarrow> handler_step I L i h = (es, h') \<Longrightarrow>
    handler_trace I L h0 (outs @ es) h'"

primrec run_handler where
  "run_handler I L [] h = ([], h)"
| "run_handler I L (i # ins) h =
     (let (es, h') = handler_step I L i h; (fs, h'') = run_handler I L ins h' in (es @ fs, h''))"

lemma run_handler_trace_from:
  assumes "handler_trace I L h0 outs h"
  shows "handler_trace I L h0 (outs @ fst (run_handler I L ins h)) (snd (run_handler I L ins h))"
  using assms
proof (induction ins arbitrary: outs h)
  case (Cons i ins)
  obtain es h' where s: "handler_step I L i h = (es, h')" by fastforce
  from Cons.IH [OF step [OF Cons.prems s]] show ?case by (simp add: s case_prod_beta)
qed simp

lemma run_handler_trace:
  "handler_trace I L h (fst (run_handler I L ins h)) (snd (run_handler I L ins h))"
  using run_handler_trace_from [OF start, of I L h ins] by simp

section \<open>What an operation may change\<close>

text \<open>No operation changes the local information, the protocol names or the interval.\<close>

definition same_setup :: "('info, 'push, 'fs, 'delay, 'sp) Handler \<Rightarrow> ('info, 'push, 'fs, 'delay, 'sp) Handler \<Rightarrow> bool" where
  "same_setup h h' \<longleftrightarrow>
     h_local_info h' = h_local_info h \<and> h_protocol_name h' = h_protocol_name h \<and>
     h_push_protocol_name h' = h_push_protocol_name h \<and> h_interval h' = h_interval h \<and>
     h_remote_peer_id h' = h_remote_peer_id h"

lemma poll_streams_setup: "same_setup h (snd (poll_streams I r h))"
  by (induction I r h rule: poll_streams.induct)
    (auto simp: same_setup_def handle_incoming_info_def Let_def split: option.split)

lemma poll_streams_frame:
  "h_events (snd (poll_streams I r h)) = h_events h"
  "h_active_streams (snd (poll_streams I r h)) = h_active_streams h"
  "h_exchanged_one_periodic_identify (snd (poll_streams I r h)) = h_exchanged_one_periodic_identify h"
  by (induction I r h rule: poll_streams.induct)
    (auto simp: handle_incoming_info_def Let_def split: option.split)

lemma connection_event_setup: "same_setup h (on_connection_event I L e h)"
proof (cases e)
  case (FullyNegotiatedInbound x)
  then show ?thesis by (cases x) (auto simp: same_setup_def split: option.split)
next
  case (FullyNegotiatedOutbound x)
  then show ?thesis by (cases x) (auto simp: same_setup_def Let_def split: option.split)
qed (auto simp: same_setup_def Let_def split: prod.split)

lemma Handler_poll_cases:
  obtains (queued) "h_events h \<noteq> []"
      "Handler_poll I L cx h = (Ready (last (h_events h)), h\<lparr>h_events := butlast (h_events h)\<rparr>)"
  | (timer) delay where "h_events h = []" "Delay_poll L cx (h_trigger_next_identify h) = (Ready (), delay)"
      "Handler_poll I L cx h = (Ready (OutboundSubstreamRequest (Left (h_protocol_name h))),
         h\<lparr>h_trigger_next_identify := Delay_reset L (h_interval h) delay\<rparr>)"
  | (streams) delay r fs where "h_events h = []" "Delay_poll L cx (h_trigger_next_identify h) = (Pending, delay)"
      "FuturesSet_poll L cx (h_active_streams h) = (r, fs)"
      "Handler_poll I L cx h = poll_streams I r (h\<lparr>h_trigger_next_identify := delay, h_active_streams := fs\<rparr>)"
proof (cases "h_events h = []")
  case True
  obtain p delay where d: "Delay_poll L cx (h_trigger_next_identify h) = (p, delay)" by fastforce
  obtain r fs where f: "FuturesSet_poll L cx (h_active_streams h) = (r, fs)" by fastforce
  show ?thesis
    by (cases p) (use True d f timer streams in \<open>auto simp: Handler_poll_def\<close>)
qed (use queued in \<open>simp add: Handler_poll_def\<close>)

lemma step_setup:
  assumes "handler_step I L i h = (es, h')"
  shows "same_setup h h'"
proof (cases i)
  case (In_connection e)
  with assms connection_event_setup show ?thesis by auto
next
  case (In_behaviour e)
  with assms show ?thesis by (cases e) (auto simp: same_setup_def)
next
  case (In_poll cx)
  with assms have h': "h' = snd (Handler_poll I L cx h)" by (auto split: prod.splits Poll.splits)
  show ?thesis
  proof (cases rule: Handler_poll_cases [where h = h and I = I and L = L and cx = cx])
    case (streams delay r fs)
    with h' poll_streams_setup [of "h\<lparr>h_trigger_next_identify := delay, h_active_streams := fs\<rparr>" I r]
    show ?thesis by (simp add: same_setup_def)
  qed (simp_all add: h' same_setup_def)
qed

lemma trace_setup:
  assumes "handler_trace I L h0 outs h"
  shows "same_setup h0 h"
  using assms by induction (auto simp: same_setup_def dest: step_setup)

section \<open>Pending events\<close>

text \<open>The queued events are outbound requests and dial errors; what the remote sent is reported by
  the poll that received it and never queued.\<close>

fun queueable :: "('info, 'push) ConnectionHandlerEvent \<Rightarrow> bool" where
  "queueable (OutboundSubstreamRequest _) = True"
| "queueable (NotifyBehaviour (IdentificationError _)) = True"
| "queueable (NotifyBehaviour _) = False"

lemma connection_event_queue:
  "\<forall>e \<in> set (h_events h). queueable e \<Longrightarrow> \<forall>e \<in> set (h_events (on_connection_event I L c h)). queueable e"
proof (induction I L c h rule: on_connection_event.induct)
  case (1 I L x h) then show ?case by (cases x) (auto split: option.splits)
next
  case (2 I L x h) then show ?case by (cases x) (auto simp: Let_def split: option.splits)
qed (auto simp: Let_def split: prod.split)

lemma step_queue:
  assumes "handler_step I L i h = (es, h')" "\<forall>e \<in> set (h_events h). queueable e"
  shows "\<forall>e \<in> set (h_events h'). queueable e"
proof (cases i)
  case (In_connection e)
  with assms(1) connection_event_queue [OF assms(2), of I L e] show ?thesis by simp
next
  case (In_behaviour e)
  with assms show ?thesis by (cases e) auto
next
  case (In_poll cx)
  with assms(1) have h': "h' = snd (Handler_poll I L cx h)" by (auto split: prod.splits Poll.splits)
  show ?thesis
  proof (cases rule: Handler_poll_cases [where h = h and I = I and L = L and cx = cx])
    case queued
    with h' assms(2) show ?thesis by (auto dest: in_set_butlastD)
  qed (simp_all add: h' poll_streams_frame)
qed

lemma trace_queue:
  assumes "handler_trace I L h0 outs h" "h_events h0 = []"
  shows "\<forall>e \<in> set (h_events h). queueable e"
  using assms by induction (simp, blast dest: step_queue)

section \<open>The remote information\<close>

fun identified_by :: "('info, 'push) ConnectionHandlerEvent \<Rightarrow> 'info option" where
  "identified_by (NotifyBehaviour (Identified info)) = Some info"
| "identified_by _ = None"

text \<open>The information of the last \<open>Identified\<close> event that was reported.\<close>

definition last_identified :: "('info, 'push) ConnectionHandlerEvent list \<Rightarrow> 'info option" where
  "last_identified outs = fold (\<lambda>e r. case identified_by e of Some i \<Rightarrow> Some i | None \<Rightarrow> r) outs None"

lemma last_identified_append:
  "last_identified (outs @ [e]) = (case identified_by e of Some i \<Rightarrow> Some i | None \<Rightarrow> last_identified outs)"
  by (simp add: last_identified_def split: option.split)

lemma queueable_not_identified: "queueable e \<Longrightarrow> identified_by e = None"
  by (induction e rule: queueable.induct) simp_all

lemma poll_streams_remote:
  "h_remote_info (snd (poll_streams I r h)) =
     (case fst (poll_streams I r h) of
        Ready e \<Rightarrow> (case identified_by e of Some i \<Rightarrow> Some i | None \<Rightarrow> h_remote_info h)
      | Pending \<Rightarrow> h_remote_info h)"
  by (induction I r h rule: poll_streams.induct)
    (auto simp: handle_incoming_info_def Let_def split: option.split)

lemma connection_event_remote: "h_remote_info (on_connection_event I L c h) = h_remote_info h"
proof (induction I L c h rule: on_connection_event.induct)
  case (1 I L x h) then show ?case by (cases x) (auto split: option.splits)
next
  case (2 I L x h) then show ?case by (cases x) (auto simp: Let_def split: option.splits)
qed (auto simp: Let_def split: prod.split)

lemma step_remote:
  assumes "handler_step I L i h = (es, h')" "\<forall>e \<in> set (h_events h). queueable e"
    and "h_remote_info h = last_identified outs"
  shows "h_remote_info h' = last_identified (outs @ es)"
proof (cases i)
  case (In_behaviour e)
  with assms show ?thesis by (cases e) auto
next
  case (In_poll cx)
  show ?thesis
  proof (cases rule: Handler_poll_cases [where h = h and I = I and L = L and cx = cx])
    case queued
    with In_poll assms show ?thesis by (auto simp: last_identified_append queueable_not_identified)
  next
    case (timer delay)
    with In_poll assms show ?thesis by (auto simp: last_identified_append)
  next
    case (streams delay r fs)
    let ?h = "h\<lparr>h_trigger_next_identify := delay, h_active_streams := fs\<rparr>"
    obtain p g where p: "poll_streams I r ?h = (p, g)" by fastforce
    from poll_streams_remote [of I r ?h] p In_poll assms(1,3) streams show ?thesis
      by (cases p) (auto simp: last_identified_append split: option.splits)
  qed
qed (use assms in \<open>auto simp: connection_event_remote\<close>)

lemma trace_remote:
  assumes "handler_trace I L h0 outs h" "h_events h0 = []" "h_remote_info h0 = None"
  shows "h_remote_info h = last_identified outs"
  using assms
proof induction
  case (step outs h i es h')
  from step_remote [OF step.hyps(2) trace_queue [OF step.hyps(1) step.prems(1)]] step.IH step.prems
  show ?case by blast
qed (simp add: last_identified_def)

section \<open>Streams in flight\<close>

text \<open>
  The contract of \<open>futures_bounded::FuturesSet\<close>, with \<open>inflight\<close> the futures in the set and \<open>cap\<close> the
  capacity it was created with: a new set is empty; a push adds the future while the set is below
  its capacity, and is refused otherwise; a poll that is ready removes one future and returns its
  output or, after its timeout, an error; a poll that is pending removes none.
\<close>

definition futures_set_spec where
  "futures_set_spec L C inflight cap \<longleftrightarrow>
     (\<forall>d n. inflight (FuturesSet_new L d n) = {#} \<and> cap (FuturesSet_new L d n) = n) \<and>
     (\<forall>f fs fs'. FuturesSet_try_push L f fs = Some fs' \<longrightarrow>
        size (inflight fs) < unat (cap fs) \<and> inflight fs' = add_mset f (inflight fs) \<and> cap fs' = cap fs) \<and>
     (\<forall>f fs. FuturesSet_try_push L f fs = None \<longrightarrow> unat (cap fs) \<le> size (inflight fs)) \<and>
     (\<forall>cx fs r fs'. FuturesSet_poll L cx fs = (Ready r, fs') \<longrightarrow> cap fs' = cap fs \<and>
        (\<exists>f. inflight fs = add_mset f (inflight fs') \<and> (r = Ok (future_output C f) \<or> r = Err ()))) \<and>
     (\<forall>cx fs fs'. FuturesSet_poll L cx fs = (Pending, fs') \<longrightarrow> cap fs' = cap fs \<and> inflight fs' = inflight fs)"

lemma futures_set_new:
  assumes "futures_set_spec L C inflight cap"
  shows "inflight (FuturesSet_new L d n) = {#}" and "cap (FuturesSet_new L d n) = n"
  using assms by (simp_all add: futures_set_spec_def)

lemma futures_set_push:
  assumes "futures_set_spec L C inflight cap" "FuturesSet_try_push L f fs = Some fs'"
  shows "size (inflight fs) < unat (cap fs)" and "inflight fs' = add_mset f (inflight fs)" and "cap fs' = cap fs"
  using assms by (auto simp: futures_set_spec_def)

lemma futures_set_full:
  assumes "futures_set_spec L C inflight cap" "FuturesSet_try_push L f fs = None"
  shows "unat (cap fs) \<le> size (inflight fs)"
  using assms by (auto simp: futures_set_spec_def)

lemma futures_set_poll:
  assumes "futures_set_spec L C inflight cap" "FuturesSet_poll L cx fs = (r, fs')"
  shows "cap fs' = cap fs \<and> ((r = Pending \<and> inflight fs' = inflight fs) \<or>
    (\<exists>f. inflight fs = add_mset f (inflight fs') \<and> (r = Ready (Ok (future_output C f)) \<or> r = Ready (Err ()))))"
  using assms by (cases r) (auto simp: futures_set_spec_def)

text \<open>What a handler with the local information \<open>li\<close> does with a stream that was negotiated: it
  answers the remote's request, reads the remote's push, reads the answer to its own request, or
  writes its own push.\<close>

fun stream_task ::
  "('info, 'push) Info \<Rightarrow> 'info \<Rightarrow> ('io, 'chg) ConnectionEvent \<Rightarrow> ('io, 'info, 'push) stream_future option" where
  "stream_task I li (FullyNegotiatedInbound (Left io)) = Some (Fut_write_info io li)"
| "stream_task I li (FullyNegotiatedInbound (Right io)) = Some (Fut_read_push_info io)"
| "stream_task I li (FullyNegotiatedOutbound (Left io)) = Some (Fut_read_info io)"
| "stream_task I li (FullyNegotiatedOutbound (Right io)) = Some (Fut_write_push_info io (info_into_push I li))"
| "stream_task I li _ = None"

definition from_stream ::
  "('info, 'push) Info \<Rightarrow> 'info \<Rightarrow> ('io, 'chg) ConnectionEvent set \<Rightarrow> ('io, 'info, 'push) stream_future \<Rightarrow> bool" where
  "from_stream I li E f \<longleftrightarrow> (\<exists>e \<in> E. stream_task I li e = Some f)"

text \<open>Information that the remote sent on a connection with the events \<open>E\<close>: the answer read from a
  stream that was negotiated for a request on this connection, or a push read from a stream that
  the remote opened on it, merged into information heard before.\<close>

inductive heard ::
  "('info, 'push) Info \<Rightarrow> ('io, 'info, 'push) Codec \<Rightarrow> ('io, 'chg) ConnectionEvent set \<Rightarrow> 'info \<Rightarrow> bool"
  for I C E where
  heard_info: "FullyNegotiatedOutbound (Left io) \<in> E \<Longrightarrow> codec_read_info C io = Ok info \<Longrightarrow> heard I C E info"
| heard_push: "heard I C E info \<Longrightarrow> FullyNegotiatedInbound (Right io) \<in> E \<Longrightarrow>
    codec_read_push_info C io = Ok push \<Longrightarrow> heard I C E (info_merge I info push)"

text \<open>A truthful report on a connection: identified information was sent by the remote; a push of the
  local information was written to a stream opened for a push, and the local information to a stream
  that the remote opened for a request.\<close>

fun truthful ::
  "('info, 'push) Info \<Rightarrow> ('io, 'info, 'push) Codec \<Rightarrow> 'info \<Rightarrow> ('io, 'chg) ConnectionEvent set \<Rightarrow>
     ('info, 'push) ConnectionHandlerEvent \<Rightarrow> bool" where
  "truthful I C li E (NotifyBehaviour (Identified info)) \<longleftrightarrow> heard I C E info"
| "truthful I C li E (NotifyBehaviour (IdentificationPushed push)) \<longleftrightarrow>
     push = info_into_push I li \<and>
     (\<exists>io. FullyNegotiatedOutbound (Right io) \<in> E \<and> fst (codec_write_push_info C io push) = Ok ())"
| "truthful I C li E (NotifyBehaviour Identification) \<longleftrightarrow>
     (\<exists>io. FullyNegotiatedInbound (Left io) \<in> E \<and> fst (codec_write_info C io li) = Ok ())"
| "truthful I C li E _ \<longleftrightarrow> True"

lemma from_stream_mono: "from_stream I li E f \<Longrightarrow> E \<subseteq> E' \<Longrightarrow> from_stream I li E' f"
  by (auto simp: from_stream_def)

lemma heard_mono: "heard I C E info \<Longrightarrow> E \<subseteq> E' \<Longrightarrow> heard I C E' info"
  by (induction rule: heard.induct) (auto intro: heard.intros)

lemma truthful_mono: "truthful I C li E e \<Longrightarrow> E \<subseteq> E' \<Longrightarrow> truthful I C li E' e"
  by (induction I C li E e rule: truthful.induct) (auto intro: heard_mono)

lemma queueable_truthful: "queueable e \<Longrightarrow> truthful I C li E e"
  by (induction e rule: queueable.induct) simp_all

definition flight_ok where
  "flight_ok I C inflight cap E h \<longleftrightarrow>
     (\<forall>f \<in># inflight (h_active_streams h). from_stream I (h_local_info h) E f) \<and>
     cap (h_active_streams h) = MAX_CONCURRENT_STREAMS_PER_CONNECTION \<and>
     size (inflight (h_active_streams h)) \<le> unat MAX_CONCURRENT_STREAMS_PER_CONNECTION \<and>
     (\<forall>i. h_remote_info h = Some i \<longrightarrow> heard I C E i) \<and>
     (\<forall>e \<in> set (h_events h). queueable e)"

lemma flight_ok_mono: "flight_ok I C inflight cap E h \<Longrightarrow> E \<subseteq> E' \<Longrightarrow> flight_ok I C inflight cap E' h"
  unfolding flight_ok_def by (blast intro: from_stream_mono heard_mono)

text \<open>A negotiated stream is taken on exactly when fewer than the maximum are in flight.\<close>

lemma connection_event_streams:
  assumes spec: "futures_set_spec L C inflight cap" and task: "stream_task I (h_local_info h) e = Some f"
  shows "(\<exists>fs. FuturesSet_try_push L f (h_active_streams h) = Some fs \<and>
      h_active_streams (on_connection_event I L e h) = fs) \<or>
    (FuturesSet_try_push L f (h_active_streams h) = None \<and> on_connection_event I L e h = h)"
  using task by (induction I "h_local_info h" e rule: stream_task.induct) (auto simp: Let_def split: option.split)

lemma connection_event_others: "stream_task I (h_local_info h) e = None \<Longrightarrow>
    h_active_streams (on_connection_event I L e h) = h_active_streams h"
  by (induction I "h_local_info h" e rule: stream_task.induct) (auto simp: Let_def split: prod.split)

lemma flight_ok_connection_event:
  assumes spec: "futures_set_spec L C inflight cap" and ok: "flight_ok I C inflight cap E h"
  shows "flight_ok I C inflight cap (insert e E) (on_connection_event I L e h)"
proof -
  let ?h = "on_connection_event I L e h"
  have ok': "flight_ok I C inflight cap (insert e E) h" using ok by (rule flight_ok_mono) blast
  have frame: "h_local_info ?h = h_local_info h" "h_remote_info ?h = h_remote_info h"
    using connection_event_setup [of h I L e] connection_event_remote by (simp_all add: same_setup_def)
  have queue: "\<forall>e' \<in> set (h_events ?h). queueable e'"
    using ok by (intro connection_event_queue) (simp add: flight_ok_def)
  consider (same) "h_active_streams ?h = h_active_streams h"
    | (push) f where "stream_task I (h_local_info h) e = Some f"
        "FuturesSet_try_push L f (h_active_streams h) = Some (h_active_streams ?h)"
    using connection_event_streams [OF spec, of I h e] connection_event_others [of I h e L]
    by (cases "stream_task I (h_local_info h) e") auto
  then show ?thesis
  proof cases
    case same
    with ok' frame queue show ?thesis by (simp add: flight_ok_def)
  next
    case push
    have "from_stream I (h_local_info h) (insert e E) f" using push(1) by (simp add: from_stream_def)
    with futures_set_push [OF spec push(2)] ok' frame queue show ?thesis by (simp add: flight_ok_def)
  qed
qed

lemma future_output_truthful:
  assumes "from_stream I (h_local_info h) E f" "\<forall>i. h_remote_info h = Some i \<longrightarrow> heard I C E i"
    and "poll_streams I (Ready (Ok (future_output C f))) h = (p, h')"
  shows "(\<forall>e. p = Ready e \<longrightarrow> truthful I C (h_local_info h) E e) \<and> (\<forall>i. h_remote_info h' = Some i \<longrightarrow> heard I C E i)"
proof -
  from assms(1) obtain e where e: "e \<in> E" "stream_task I (h_local_info h) e = Some f"
    by (auto simp: from_stream_def)
  show ?thesis
  proof (cases f)
    case (Fut_read_push_info io)
    with e have E: "FullyNegotiatedInbound (Right io) \<in> E"
      by (induction I "h_local_info h" e rule: stream_task.induct) auto
    show ?thesis
    proof (cases "codec_read_push_info C io")
      case (Ok push)
      with Fut_read_push_info assms(2,3) E show ?thesis
        by (auto simp: handle_incoming_info_def Let_def intro: heard_push split: option.splits)
    qed (use Fut_read_push_info assms(2,3) in auto)
  next
    case (Fut_read_info io)
    with e have "FullyNegotiatedOutbound (Left io) \<in> E"
      by (induction I "h_local_info h" e rule: stream_task.induct) auto
    with Fut_read_info assms(2,3) show ?thesis
      by (cases "codec_read_info C io") (auto simp: handle_incoming_info_def intro: heard_info)
  next
    case (Fut_write_info io info)
    with e have "FullyNegotiatedInbound (Left io) \<in> E" "info = h_local_info h"
      by (induction I "h_local_info h" e rule: stream_task.induct) auto
    with Fut_write_info assms(2,3) show ?thesis
      by (cases "fst (codec_write_info C io info)") auto
  next
    case (Fut_write_push_info io push)
    with e have "FullyNegotiatedOutbound (Right io) \<in> E" "push = info_into_push I (h_local_info h)"
      by (induction I "h_local_info h" e rule: stream_task.induct) auto
    with Fut_write_push_info assms(2,3) show ?thesis
      by (cases "fst (codec_write_push_info C io push)") auto
  qed
qed

lemma poll_truthful:
  assumes spec: "futures_set_spec L C inflight cap" and ok: "flight_ok I C inflight cap E h"
    and poll: "Handler_poll I L cx h = (p, h')"
  shows "flight_ok I C inflight cap E h' \<and> (\<forall>e. p = Ready e \<longrightarrow> truthful I C (h_local_info h) E e)"
proof (cases rule: Handler_poll_cases [where h = h and I = I and L = L and cx = cx])
  case queued
  have "\<forall>e \<in> set (butlast (h_events h)). queueable e" "queueable (last (h_events h))"
    using ok queued(1) by (auto simp: flight_ok_def dest: in_set_butlastD)
  with queued poll ok show ?thesis by (auto simp: flight_ok_def queueable_truthful)
next
  case (timer delay)
  with poll ok show ?thesis by (auto simp: flight_ok_def)
next
  case (streams delay r fs)
  let ?h = "h\<lparr>h_trigger_next_identify := delay, h_active_streams := fs\<rparr>"
  have ps: "poll_streams I r ?h = (p, h')" using poll streams by simp
  have fr: "h_events h' = h_events h" "h_active_streams h' = fs" "h_local_info h' = h_local_info h"
    using poll_streams_frame [of I r ?h] poll_streams_setup [of ?h I r] ps by (simp_all add: same_setup_def)
  from futures_set_poll [OF spec streams(3)] show ?thesis
  proof (elim disjE conjE exE)
    fix f assume f: "inflight (h_active_streams h) = add_mset f (inflight fs)"
      and r: "r = Ready (Ok (future_output C f))" and c: "cap fs = cap (h_active_streams h)"
    have w: "from_stream I (h_local_info ?h) E f" "\<forall>i. h_remote_info ?h = Some i \<longrightarrow> heard I C E i"
      using ok f by (simp_all add: flight_ok_def)
    from future_output_truthful [OF w ps [unfolded r]]
    have t: "\<forall>e. p = Ready e \<longrightarrow> truthful I C (h_local_info h) E e" "\<forall>i. h_remote_info h' = Some i \<longrightarrow> heard I C E i"
      by simp_all
    have "flight_ok I C inflight cap E h'"
      unfolding flight_ok_def fr using ok f c t(2) by (simp add: flight_ok_def)
    with t(1) show ?thesis by blast
  qed (use ps ok in \<open>auto simp: flight_ok_def\<close>)
qed

section \<open>Runs with their connection events\<close>

text \<open>The connection events among the inputs of a handler.\<close>

definition conn_events :: "('io, 'chg, 'cx) handler_input list \<Rightarrow> ('io, 'chg) ConnectionEvent set" where
  "conn_events ins = {e. In_connection e \<in> set ins}"

lemma conn_events_simps [simp]:
  "conn_events [] = {}" "conn_events (In_connection e # ins) = insert e (conn_events ins)"
  "conn_events (In_behaviour b # ins) = conn_events ins" "conn_events (In_poll cx # ins) = conn_events ins"
  by (auto simp: conn_events_def)

lemma conn_events_Cons: "conn_events (i # ins) = conn_events [i] \<union> conn_events ins"
  by (cases i) simp_all

lemma step_truthful:
  assumes spec: "futures_set_spec L C inflight cap" and ok: "flight_ok I C inflight cap E h"
    and s: "handler_step I L i h = (es, h')"
  shows "flight_ok I C inflight cap (E \<union> conn_events [i]) h' \<and>
    (\<forall>e \<in> set es. truthful I C (h_local_info h) (E \<union> conn_events [i]) e)"
proof (cases i)
  case (In_connection e)
  with flight_ok_connection_event [OF spec ok, of e] s show ?thesis by auto
next
  case (In_behaviour e)
  with s ok show ?thesis by (cases e) (auto simp: flight_ok_def)
next
  case (In_poll cx)
  obtain p g where p: "Handler_poll I L cx h = (p, g)" by fastforce
  from poll_truthful [OF spec ok p] In_poll p s show ?thesis by (cases p) auto
qed

lemma run_truthful:
  assumes spec: "futures_set_spec L C inflight cap"
  shows "flight_ok I C inflight cap E h \<Longrightarrow> run_handler I L ins h = (outs, h') \<Longrightarrow>
    flight_ok I C inflight cap (E \<union> conn_events ins) h' \<and> h_local_info h' = h_local_info h \<and>
    (\<forall>e \<in> set outs. truthful I C (h_local_info h) (E \<union> conn_events ins) e)"
proof (induction ins arbitrary: E h outs)
  case (Cons i ins)
  obtain es h1 where s: "handler_step I L i h = (es, h1)" by fastforce
  obtain fs where r: "run_handler I L ins h1 = (fs, h')" and outs: "outs = es @ fs"
    using Cons.prems(2) s by (auto split: prod.splits)
  note step = step_truthful [OF spec Cons.prems(1) s]
  have li: "h_local_info h1 = h_local_info h" using step_setup [OF s] by (simp add: same_setup_def)
  have E: "E \<union> conn_events [i] \<union> conn_events ins = E \<union> conn_events (i # ins)"
    by (simp add: conn_events_Cons [of i ins] Un_assoc)
  from step have "\<forall>e \<in> set es. truthful I C (h_local_info h) (E \<union> conn_events (i # ins)) e"
    unfolding E [symmetric] by (blast intro: truthful_mono)
  with Cons.IH [OF conjunct1 [OF step] r] show ?case unfolding E li outs by (simp add: ball_Un)
qed simp

lemma flight_ok_new:
  assumes "futures_set_spec L C inflight cap"
  shows "flight_ok I C inflight cap {} (Handler_new L d peer addrs li n pn)"
  by (simp add: flight_ok_def Handler_new_def futures_set_new [OF assms])

text \<open>Everything that the runs of a new handler keep.\<close>

lemma new_run_truthful:
  assumes "futures_set_spec L C inflight cap" "run_handler I L ins (Handler_new L d peer addrs li n pn) = (outs, h)"
  shows "flight_ok I C inflight cap (conn_events ins) h" and "h_local_info h = li"
    and "e \<in> set outs \<Longrightarrow> truthful I C li (conn_events ins) e"
  using run_truthful [OF assms(1) flight_ok_new [OF assms(1)] assms(2)] by (auto simp: Handler_new_def)

end
