(* ===== verification/HandlerProperties.thy ===== *)
theory HandlerProperties
  imports HandlerTraces
begin

text \<open>
  The properties of the connection handler, and a concrete library and runs for their witnesses.
\<close>

section \<open>Queued events\<close>

text \<open>The handler as a source of events: the queue is a stack, the last event queued is polled
  first.\<close>

lemma Handler_poll_queued:
  assumes "rev (h_events h) = e # es"
  shows "Handler_poll I L cx h = (Ready e, h\<lparr>h_events := rev es\<rparr>)"
proof -
  have "h_events h = rev es @ [e]" using assms by (metis rev.simps(2) rev_rev_ident)
  then show ?thesis by (simp add: Handler_poll_def)
qed

interpretation hq: event_source "Handler_poll I L" "\<lambda>h. rev (h_events h)" "\<lambda>es h. h\<lparr>h_events := rev es\<rparr>"
  by unfold_locales (simp_all add: Handler_poll_queued)

section \<open>Pushes\<close>

text \<open>An input that may lead to a push: an identification request of the remote, or the
  behaviour's order.\<close>

fun push_cause :: "('io, 'chg, 'cx) handler_input \<Rightarrow> bool" where
  "push_cause (In_connection (FullyNegotiatedInbound (Left _))) = True"
| "push_cause (In_behaviour Push) = True"
| "push_cause _ = False"

fun is_push :: "('info, 'push) ConnectionHandlerEvent \<Rightarrow> bool" where
  "is_push (OutboundSubstreamRequest (Right _)) = True"
| "is_push _ = False"

definition quiet :: "('info, 'push, 'fs, 'delay, 'sp) Handler \<Rightarrow> bool" where
  "quiet h \<longleftrightarrow> \<not> h_exchanged_one_periodic_identify h \<and> (\<forall>e \<in> set (h_events h). \<not> is_push e)"

lemma poll_streams_no_push: "poll_streams I r h = (Ready e, h') \<Longrightarrow> \<not> is_push e"
  by (induction I r h rule: poll_streams.induct) (auto simp: Let_def split: option.splits)

lemma quiet_connection_event:
  assumes "quiet h" "\<not> push_cause (In_connection c)"
  shows "quiet (on_connection_event I L c h)"
proof (cases c)
  case (FullyNegotiatedInbound x)
  with assms show ?thesis by (cases x) (auto simp: quiet_def split: option.split)
next
  case (FullyNegotiatedOutbound x)
  with assms show ?thesis by (cases x) (auto simp: quiet_def Let_def split: option.split)
qed (use assms in \<open>auto simp: quiet_def Let_def split: prod.split\<close>)

lemma quiet_poll:
  assumes "quiet h" "Handler_poll I L cx h = (p, h')"
  shows "quiet h' \<and> (\<forall>e. p = Ready e \<longrightarrow> \<not> is_push e)"
proof (cases rule: Handler_poll_cases [where h = h and I = I and L = L and cx = cx])
  case queued
  have "\<forall>e \<in> set (butlast (h_events h)). \<not> is_push e" "\<not> is_push (last (h_events h))"
    using assms(1) queued(1) by (auto simp: quiet_def dest: in_set_butlastD)
  with queued assms show ?thesis by (auto simp: quiet_def)
next
  case (timer delay)
  with assms show ?thesis by (auto simp: quiet_def)
next
  case (streams delay r fs)
  let ?h = "h\<lparr>h_trigger_next_identify := delay, h_active_streams := fs\<rparr>"
  have p: "poll_streams I r ?h = (p, h')" using assms(2) streams by simp
  then have "quiet h'" using poll_streams_frame [of I r ?h] assms(1) by (simp add: quiet_def)
  with p poll_streams_no_push show ?thesis by blast
qed

lemma quiet_step:
  assumes "quiet h" "\<not> push_cause i" "handler_step I L i h = (es, h')"
  shows "quiet h' \<and> (\<forall>e \<in> set es. \<not> is_push e)"
proof (cases i)
  case (In_connection c)
  with assms quiet_connection_event [OF assms(1), of c I L] show ?thesis by auto
next
  case (In_behaviour c)
  with assms show ?thesis by (cases c) (auto simp: quiet_def)
next
  case (In_poll cx)
  obtain p g where p: "Handler_poll I L cx h = (p, g)" by fastforce
  with quiet_poll [OF assms(1) p] In_poll assms(3) show ?thesis by (cases p) auto
qed

lemma quiet_run:
  "quiet h \<Longrightarrow> \<forall>i \<in> set ins. \<not> push_cause i \<Longrightarrow> \<forall>e \<in> set (fst (run_handler I L ins h)). \<not> is_push e"
proof (induction ins arbitrary: h)
  case (Cons i ins)
  obtain es h' where s: "handler_step I L i h = (es, h')" by fastforce
  from quiet_step [OF Cons.prems(1) _ s] Cons.prems(2)
  have "quiet h'" "\<forall>e \<in> set es. \<not> is_push e" by simp_all
  with Cons.IH [of h'] Cons.prems(2) show ?case by (simp add: s case_prod_beta ball_Un)
qed simp

section \<open>A concrete library\<close>

text \<open>A set of futures that completes them in order whenever the context says so, and a timer that
  fires when the context says so. The context is the pair of both flags; the information is a
  byte string that a push replaces.\<close>

type_synonym demo_future = "(io_stream, u8 list, u8 list) stream_future"

definition demo_Info :: "(u8 list, u8 list) Info" where
  "demo_Info = \<lparr>info_merge = (\<lambda>_ p. p), info_into_push = (\<lambda>i. i)\<rparr>"

definition demo_Codec :: "(io_stream, u8 list, u8 list) Codec" where
  "demo_Codec = json_Codec raw_serde raw_serde"

definition bounded_lib ::
  "('io, 'info, 'push) Codec \<Rightarrow>
     (usize \<times> ('io, 'info, 'push) stream_future list, 'io, 'info, 'push, unit, nat, nat, bool \<times> bool) handler_lib" where
  "bounded_lib C =
     \<lparr>FuturesSet_new = (\<lambda>_ n. (n, [])),
      FuturesSet_try_push = (\<lambda>f (n, fs). if length fs < unat n then Some (n, fs @ [f]) else None),
      FuturesSet_poll = (\<lambda>(_, ready) (n, fs).
        case fs of [] \<Rightarrow> (Pending, (n, []))
        | f # fs' \<Rightarrow> if ready then (Ready (Ok (future_output C f)), (n, fs')) else (Pending, (n, fs))),
      Delay_new = (\<lambda>_. ()),
      Delay_poll = (\<lambda>(fired, _) _. (if fired then Ready () else Pending, ())),
      Delay_reset = (\<lambda>_ _. ()),
      SupportedProtocols_default = 0,
      SupportedProtocols_on_protocols_change = (\<lambda>c s. (c \<noteq> s, c))\<rparr>"

lemma bounded_lib_spec: "futures_set_spec (bounded_lib C) C (mset \<circ> snd) fst"
  unfolding futures_set_spec_def by (auto simp: bounded_lib_def split: list.splits if_splits)

definition demo_lib ::
  "(usize \<times> demo_future list, io_stream, u8 list, u8 list, unit, nat, nat, bool \<times> bool) handler_lib" where
  "demo_lib = bounded_lib demo_Codec"

lemma demo_lib_spec: "futures_set_spec demo_lib demo_Codec (mset \<circ> snd) fst"
  unfolding demo_lib_def by (rule bounded_lib_spec)

definition demo_handler :: "u8 list \<Rightarrow> (u8 list, u8 list, usize \<times> demo_future list, unit, nat) Handler" where
  "demo_handler li = Handler_new demo_lib (Duration_from_secs 300) [1] {} li ''/a'' ''/b''"

lemma demo_handler_new: "h_active_streams (demo_handler li) = (10, [])" "h_local_info (demo_handler li) = li"
  by (simp_all add: demo_handler_def Handler_new_def demo_lib_def bounded_lib_def
      MAX_CONCURRENT_STREAMS_PER_CONNECTION_def)

text \<open>Requests of the remote fill the set of futures up to its capacity.\<close>

lemma bounded_lib_fill:
  "h_active_streams h = (c, fs) \<Longrightarrow> length fs + n \<le> unat c \<Longrightarrow>
   h_active_streams (snd (run_handler I (bounded_lib C)
       (replicate n (In_connection (FullyNegotiatedInbound (Left io)))) h)) =
     (c, fs @ replicate n (Fut_write_info io (h_local_info h)))"
proof (induction n arbitrary: h fs)
  case (Suc n)
  let ?h = "on_connection_event I (bounded_lib C) (FullyNegotiatedInbound (Left io)) h"
  have "h_active_streams ?h = (c, fs @ [Fut_write_info io (h_local_info h)])" "h_local_info ?h = h_local_info h"
    using Suc.prems by (simp_all add: bounded_lib_def)
  with Suc.IH [of ?h "fs @ [Fut_write_info io (h_local_info h)]"] Suc.prems(2) show ?case
    by (simp add: case_prod_beta Let_def del: on_connection_event.simps)
qed simp

definition demo_stream :: "u8 list \<Rightarrow> io_stream" where
  "demo_stream bs = \<lparr>in_bytes = bs, in_error = None, out_bytes = [], out_error = None\<rparr>"

text \<open>A run: the timer fires, the remote's answer \<open>[5]\<close> arrives, a push \<open>[6]\<close> arrives, the remote
  asks and gets an answer, and the protocols change.\<close>

definition demo_inputs :: "(io_stream, nat, bool \<times> bool) handler_input list" where
  "demo_inputs =
     [In_poll (True, False), In_connection (FullyNegotiatedOutbound (Left (demo_stream [5]))),
      In_poll (False, True), In_connection (FullyNegotiatedInbound (Right (demo_stream [6]))),
      In_poll (False, True), In_connection (FullyNegotiatedInbound (Left (demo_stream []))),
      In_poll (False, True), In_connection (LocalProtocolsChange 1), In_poll (False, False)]"

definition demo_outs :: "(u8 list, u8 list) ConnectionHandlerEvent list" where
  "demo_outs =
     [OutboundSubstreamRequest (Left ''/a''), NotifyBehaviour (Identified [5]),
      NotifyBehaviour (Identified [6]), NotifyBehaviour Identification,
      OutboundSubstreamRequest (Right ''/b'')]"

lemma demo_run: "fst (run_handler demo_Info demo_lib demo_inputs (demo_handler [9])) = demo_outs"
  by code_simp

lemma demo_trace:
  "handler_trace demo_Info demo_lib (demo_handler [9]) demo_outs
     (snd (run_handler demo_Info demo_lib demo_inputs (demo_handler [9])))"
  using run_handler_trace [of demo_Info demo_lib "demo_handler [9]" demo_inputs] by (simp only: demo_run)

section \<open>Properties\<close>

text \<open>C13. In every run of a connection handler, in whatever order its operations are called, the
  information it stores about the remote is that of the last \<open>Identified\<close> event it reported, and
  none before the first such event.\<close>

theorem handler_tracks_remote:
  assumes "handler_trace I L (Handler_new L interval peer addrs li n pn) outs h"
  shows "h_remote_info h = last_identified outs"
  by (rule trace_remote [OF assms]) (simp_all add: Handler_new_def)

theorem handler_tracks_remote_witness:
  "h_remote_info (snd (run_handler demo_Info demo_lib demo_inputs (demo_handler [9]))) = Some [6]"
proof -
  have "last_identified demo_outs = Some [6]" by code_simp
  with handler_tracks_remote [OF demo_trace [unfolded demo_handler_def]] show ?thesis
    by (simp only: demo_handler_def)
qed

text \<open>In every run of a connection handler every report is truthful.\<close>

lemma handler_reports_truth:
  assumes "futures_set_spec L C inflight cap" "e \<in> set (fst (run_handler I L ins (Handler_new L interval peer addrs li n pn)))"
  shows "truthful I C li (conn_events ins) e"
  using new_run_truthful(3) [OF assms(1) prod.collapse [symmetric]] assms(2) by blast

text \<open>C35. In every run of a connection handler at most ten streams are processed at a time, and each
  of them is a stream that was negotiated on the connection, handled the way its kind asks for, with
  the local information where something is written. A further stream is taken on whenever fewer than
  ten are in flight; with ten in flight it is dropped and the handler stays as it is.\<close>

theorem handler_stream_limit:
  assumes "futures_set_spec L C inflight cap"
    and "h = snd (run_handler I L ins (Handler_new L interval peer addrs li n pn))"
    and "stream_task I li e = Some f"
  shows "size (inflight (h_active_streams h)) \<le> 10 \<and>
    (\<forall>g \<in># inflight (h_active_streams h). from_stream I li (conn_events ins) g) \<and>
    (if size (inflight (h_active_streams h)) < 10
     then inflight (h_active_streams (on_connection_event I L e h)) = add_mset f (inflight (h_active_streams h))
     else on_connection_event I L e h = h)"
proof -
  obtain outs where run: "run_handler I L ins (Handler_new L interval peer addrs li n pn) = (outs, h)"
    using assms(2) by (metis prod.collapse)
  note new = new_run_truthful(1,2) [OF assms(1) run]
  from new have ok: "size (inflight (h_active_streams h)) \<le> 10" "unat (cap (h_active_streams h)) = 10"
    "\<forall>g \<in># inflight (h_active_streams h). from_stream I li (conn_events ins) g"
    by (simp_all add: flight_ok_def MAX_CONCURRENT_STREAMS_PER_CONNECTION_def)
  have "stream_task I (h_local_info h) e = Some f" using assms(3) new(2) by simp
  note event = connection_event_streams [OF assms(1) this]
  have "if size (inflight (h_active_streams h)) < 10
    then inflight (h_active_streams (on_connection_event I L e h)) = add_mset f (inflight (h_active_streams h))
    else on_connection_event I L e h = h"
  proof (cases "FuturesSet_try_push L f (h_active_streams h)")
    case None
    with event futures_set_full [OF assms(1) None] ok(2) show ?thesis by simp
  next
    case (Some fs)
    with event futures_set_push [OF assms(1) Some] ok(2) show ?thesis by simp
  qed
  with ok(1,3) show ?thesis by blast
qed

theorem handler_stream_limit_witness:
  "let io = demo_stream [];
       h = snd (run_handler demo_Info demo_lib
         (replicate 10 (In_connection (FullyNegotiatedInbound (Left io)))) (demo_handler [9]))
   in snd (h_active_streams h) = replicate 10 (Fut_write_info io [9]) \<and>
      on_connection_event demo_Info demo_lib (FullyNegotiatedOutbound (Left io)) h = h"
proof -
  let ?h = "snd (run_handler demo_Info demo_lib
    (replicate 10 (In_connection (FullyNegotiatedInbound (Left (demo_stream []))))) (demo_handler [9]))"
  have full: "snd (h_active_streams ?h) = replicate 10 (Fut_write_info (demo_stream []) [9])"
    using bounded_lib_fill [where n = 10 and c = 10 and fs = "[]" and h = "demo_handler [9]" and C = demo_Codec]
    by (simp add: demo_lib_def [symmetric] demo_handler_new)
  then have "\<not> size ((mset \<circ> snd) (h_active_streams ?h)) < 10" by simp
  moreover have "stream_task demo_Info [9] (FullyNegotiatedOutbound (Left (demo_stream []))) =
    Some (Fut_read_info (demo_stream []))" by simp
  note handler_stream_limit [OF demo_lib_spec refl this, where interval = "Duration_from_secs 300" and peer = "[1]"
      and addrs = "{}" and n = "''/a''" and pn = "''/b''", folded demo_handler_def]
  ultimately have "on_connection_event demo_Info demo_lib (FullyNegotiatedOutbound (Left (demo_stream []))) ?h = ?h"
    by meson
  with full show ?thesis unfolding Let_def by (rule conjI)
qed

text \<open>C36. Without an identification request of the remote and without an order of the behaviour
  the handler never asks for a push stream, however often the local protocols change.\<close>

theorem no_push_before_exchange:
  assumes "\<forall>i \<in> set ins. \<not> push_cause i"
    and "e \<in> set (fst (run_handler I L ins (Handler_new L interval peer addrs li n pn)))"
  shows "e \<noteq> OutboundSubstreamRequest (Right protocol)"
proof -
  have "quiet (Handler_new L interval peer addrs li n pn)" by (simp add: quiet_def Handler_new_def)
  from quiet_run [OF this assms(1), of I L] assms(2) show ?thesis by auto
qed

theorem no_push_before_exchange_witness:
  "let outs = fst (run_handler demo_Info demo_lib
       [In_connection (LocalProtocolsChange 1), In_poll (True, False), In_poll (False, False)] (demo_handler [9]))
   in outs = [OutboundSubstreamRequest (Left ''/a'')] \<and> OutboundSubstreamRequest (Right ''/b'') \<notin> set outs"
proof -
  let ?ins = "[In_connection (LocalProtocolsChange 1), In_poll (True, False), In_poll (False, False)]
    :: (io_stream, nat, bool \<times> bool) handler_input list"
  have run: "fst (run_handler demo_Info demo_lib ?ins (demo_handler [9])) = [OutboundSubstreamRequest (Left ''/a'')]"
    by code_simp
  have "e \<noteq> OutboundSubstreamRequest (Right ''/b'')"
    if "e \<in> set (fst (run_handler demo_Info demo_lib ?ins (demo_handler [9])))" for e
    by (rule no_push_before_exchange [OF _ that [unfolded demo_handler_def]]) simp
  with run show ?thesis by (auto simp: Let_def)
qed

text \<open>Queued events are reported before anything else, one per poll and the most recent one
  first: as many polls as there are queued events return exactly the queue in reverse order,
  whatever the timer and the streams do meanwhile, and change nothing but the queue.\<close>

lemma handler_polls_queue:
  assumes "length cxs = length (h_events h)"
  shows "polls (Handler_poll I L) cxs h = (map Ready (rev (h_events h)), h\<lparr>h_events := []\<rparr>)"
  using hq.polls_drain [of cxs h I L] assms by simp

end
