(* ===== verification/PeerInfoBehaviour.thy ===== *)
theory PeerInfoBehaviour
  imports PeerInfoHandler
begin

text \<open>
  The network behaviour of \<open>blocknet/src/libp2p/peer_info/behaviour.rs\<close>: one per node, it creates a
  handler for every connection, tracks the open connections, passes the reports of the handlers on
  to the swarm and tells the handlers about new addresses and about pushes.

  The address books of \<open>libp2p\<close> are the parameter \<open>BehaviourLib\<close>. An event of the swarm that this
  code does not look into is \<open>OtherFromSwarm\<close> with a payload for the address books.
\<close>

section \<open>Data\<close>

record Config =
  protocol_version :: string
  local_public_key :: "u8 list"
  agent_version :: string
  interval :: Duration
  push_listen_addr_updates :: bool
  cache_size :: usize
  protocol_name :: StreamProtocol
  push_protocol_name :: StreamProtocol

datatype ('info, 'push) Behaviour_Event =
    Received PeerId 'info
  | Sent PeerId
  | Pushed PeerId 'push
  | Error PeerId "UpgradeError StreamUpgradeError"

datatype NotifyHandler_target = One ConnectionId | Any

datatype ('info, 'push) ToSwarm =
    GenerateEvent "('info, 'push) Behaviour_Event"
  | NotifyHandler PeerId NotifyHandler_target InEvent

type_synonym ConnectionDenied = string

datatype ConnectedPoint = Dialer Multiaddr | Listener Multiaddr Multiaddr

datatype 'o FromSwarm =
    ConnectionEstablished PeerId ConnectionId ConnectedPoint
  | ConnectionClosed PeerId ConnectionId usize
  | OtherFromSwarm 'o

record ('la, 'ea, 'o) BehaviourLib =
  ListenAddresses_default :: 'la
  ListenAddresses_on_swarm_event :: "'o FromSwarm \<Rightarrow> 'la \<Rightarrow> bool \<times> 'la"
  ListenAddresses_iter :: "'la \<Rightarrow> Multiaddr list"
  ExternalAddresses_default :: 'ea
  ExternalAddresses_on_swarm_event :: "'o FromSwarm \<Rightarrow> 'ea \<Rightarrow> bool \<times> 'ea"
  ExternalAddresses_iter :: "'ea \<Rightarrow> Multiaddr list"

record ('info, 'push, 'la, 'ea) Behaviour =
  b_config :: Config
  b_connected :: "(PeerId, (ConnectionId, Multiaddr) HashMap) HashMap"
  b_our_observed_addresses :: "(ConnectionId, Multiaddr) HashMap"
  b_events :: "('info, 'push) ToSwarm list"
  b_listen_addresses :: 'la
  b_external_addresses :: 'ea
  b_local_info :: 'info

section \<open>Configuration\<close>

definition Config_new :: "string \<Rightarrow> u8 list \<Rightarrow> StreamProtocol \<Rightarrow> StreamProtocol \<Rightarrow> Config" where
  "Config_new version key name push_name =
     \<lparr>protocol_version = version, local_public_key = key, agent_version = ''rust-libp2p/0.1.0'',
      interval = Duration_from_secs (5 * 60), push_listen_addr_updates = False, cache_size = 100,
      protocol_name = name, push_protocol_name = push_name\<rparr>"

definition with_agent_version :: "string \<Rightarrow> Config \<Rightarrow> Config" where
  "with_agent_version v c = c\<lparr>agent_version := v\<rparr>"

definition with_interval :: "Duration \<Rightarrow> Config \<Rightarrow> Config" where
  "with_interval d c = c\<lparr>interval := d\<rparr>"

definition with_push_listen_addr_updates :: "bool \<Rightarrow> Config \<Rightarrow> Config" where
  "with_push_listen_addr_updates b c = c\<lparr>push_listen_addr_updates := b\<rparr>"

definition with_cache_size :: "usize \<Rightarrow> Config \<Rightarrow> Config" where
  "with_cache_size n c = c\<lparr>cache_size := n\<rparr>"

section \<open>Operations\<close>

definition Behaviour_new ::
  "('la, 'ea, 'o) BehaviourLib \<Rightarrow> Config \<Rightarrow> 'info \<Rightarrow> ('info, 'push, 'la, 'ea) Behaviour" where
  "Behaviour_new B config local_info =
     \<lparr>b_config = config, b_connected = [], b_our_observed_addresses = [], b_events = [],
      b_listen_addresses = ListenAddresses_default B, b_external_addresses = ExternalAddresses_default B,
      b_local_info = local_info\<rparr>"

fun Behaviour_push ::
  "PeerId list \<Rightarrow> ('info, 'push, 'la, 'ea) Behaviour \<Rightarrow> ('info, 'push, 'la, 'ea) Behaviour" where
  "Behaviour_push [] b = b"
| "Behaviour_push (p # peers) b =
     (if HashMap_get (b_connected b) p = None then Behaviour_push peers b
      else Behaviour_push peers (b\<lparr>b_events := b_events b @ [NotifyHandler p Any Push]\<rparr>))"

definition on_connection_established ::
  "PeerId \<Rightarrow> ConnectionId \<Rightarrow> ConnectedPoint \<Rightarrow>
     ('info, 'push, 'la, 'ea) Behaviour \<Rightarrow> ('info, 'push, 'la, 'ea) Behaviour" where
  "on_connection_established peer_id conn endpoint b =
     (let addr = (case endpoint of
            Dialer address \<Rightarrow> address
          | Listener local_addr send_back_addr \<Rightarrow> send_back_addr)
      in b\<lparr>b_connected := HashMap_entry peer_id [] (HashMap_insert conn addr) (b_connected b)\<rparr>)"

definition all_addresses ::
  "('la, 'ea, 'o) BehaviourLib \<Rightarrow> ('info, 'push, 'la, 'ea) Behaviour \<Rightarrow> Multiaddr set" where
  "all_addresses B b =
     set (ListenAddresses_iter B (b_listen_addresses b) @ ExternalAddresses_iter B (b_external_addresses b))"

definition handle_established_inbound_connection ::
  "('fs, 'fut, 'out, 'delay, 'sp, 'chg, 'cx) HandlerLib \<Rightarrow> ('la, 'ea, 'o) BehaviourLib \<Rightarrow>
     PeerId \<Rightarrow> ('info, 'push, 'la, 'ea) Behaviour \<Rightarrow>
     (('info, 'push, 'fs, 'delay, 'sp) Handler, ConnectionDenied) Result" where
  "handle_established_inbound_connection L B peer b =
     Ok (Handler_new L (interval (b_config b)) peer (all_addresses B b) (b_local_info b)
           (protocol_name (b_config b)) (push_protocol_name (b_config b)))"

definition handle_established_outbound_connection ::
  "('fs, 'fut, 'out, 'delay, 'sp, 'chg, 'cx) HandlerLib \<Rightarrow> ('la, 'ea, 'o) BehaviourLib \<Rightarrow>
     PeerId \<Rightarrow> ('info, 'push, 'la, 'ea) Behaviour \<Rightarrow>
     (('info, 'push, 'fs, 'delay, 'sp) Handler, ConnectionDenied) Result" where
  "handle_established_outbound_connection L B peer b =
     Ok (Handler_new L (interval (b_config b)) peer (all_addresses B b) (b_local_info b)
           (protocol_name (b_config b)) (push_protocol_name (b_config b)))"

fun handler_report :: "PeerId \<Rightarrow> ('info, 'push) Handler_Event \<Rightarrow> ('info, 'push) Behaviour_Event" where
  "handler_report peer_id (Identified info) = Received peer_id info"
| "handler_report peer_id Identification = Sent peer_id"
| "handler_report peer_id (IdentificationPushed info) = Pushed peer_id info"
| "handler_report peer_id (IdentificationError error) = Error peer_id error"

definition on_connection_handler_event ::
  "PeerId \<Rightarrow> ConnectionId \<Rightarrow> ('info, 'push) Handler_Event \<Rightarrow>
     ('info, 'push, 'la, 'ea) Behaviour \<Rightarrow> ('info, 'push, 'la, 'ea) Behaviour" where
  "on_connection_handler_event peer_id conn event b =
     b\<lparr>b_events := b_events b @ [GenerateEvent (handler_report peer_id event)]\<rparr>"

definition Behaviour_poll ::
  "'cx \<Rightarrow> ('info, 'push, 'la, 'ea) Behaviour \<Rightarrow>
     ('info, 'push) ToSwarm Poll \<times> ('info, 'push, 'la, 'ea) Behaviour" where
  "Behaviour_poll cx b =
     (case b_events b of
        [] \<Rightarrow> (Pending, b)
      | event # es \<Rightarrow> (Ready event, b\<lparr>b_events := es\<rparr>))"

definition change_events ::
  "('la, 'ea, 'o) BehaviourLib \<Rightarrow> ('info, 'push, 'la, 'ea) Behaviour \<Rightarrow> ('info, 'push) ToSwarm list" where
  "change_events B b =
     map (\<lambda>(peer_id, connection_id).
            NotifyHandler peer_id (One connection_id) (AddressesChanged (all_addresses B b)))
       (concat (map (\<lambda>(peer, m). map (\<lambda>(i, _). (peer, i)) m) (b_connected b)))"

definition push_events :: "('info, 'push, 'la, 'ea) Behaviour \<Rightarrow> ('info, 'push) ToSwarm list" where
  "push_events b = map (\<lambda>(peer, _). NotifyHandler peer Any Push) (b_connected b)"

fun on_connection_change ::
  "'o FromSwarm \<Rightarrow> ('info, 'push, 'la, 'ea) Behaviour \<Rightarrow> ('info, 'push, 'la, 'ea) Behaviour" where
  "on_connection_change (ConnectionEstablished peer_id conn endpoint) b =
     on_connection_established peer_id conn endpoint b"
| "on_connection_change (ConnectionClosed peer_id connection_id remaining_established) b =
     b\<lparr>b_connected :=
          (if remaining_established = 0 then HashMap_remove peer_id (b_connected b)
           else HashMap_modify peer_id (HashMap_remove connection_id) (b_connected b)),
       b_our_observed_addresses := HashMap_remove connection_id (b_our_observed_addresses b)\<rparr>"
| "on_connection_change (OtherFromSwarm _) b = b"

definition on_swarm_event ::
  "('la, 'ea, 'o) BehaviourLib \<Rightarrow> 'o FromSwarm \<Rightarrow>
     ('info, 'push, 'la, 'ea) Behaviour \<Rightarrow> ('info, 'push, 'la, 'ea) Behaviour" where
  "on_swarm_event B event b =
     (let (listen_addr_changed, la) = ListenAddresses_on_swarm_event B event (b_listen_addresses b);
          (external_addr_changed, ea) = ExternalAddresses_on_swarm_event B event (b_external_addresses b);
          b1 = b\<lparr>b_listen_addresses := la, b_external_addresses := ea\<rparr>;
          b2 = (if listen_addr_changed \<or> external_addr_changed
                then b1\<lparr>b_events := b_events b1 @ change_events B b1\<rparr> else b1);
          b3 = (if listen_addr_changed \<and> push_listen_addr_updates (b_config b2)
                then b2\<lparr>b_events := b_events b2 @ push_events b2\<rparr> else b2)
      in on_connection_change event b3)"

section \<open>Polling\<close>

interpretation bq: event_source Behaviour_poll b_events "\<lambda>es b. b\<lparr>b_events := es\<rparr>"
  by unfold_locales (simp_all add: Behaviour_poll_def)

lemma push_append:
  "Behaviour_push ps b =
     b\<lparr>b_events := b_events b @
        map (\<lambda>p. NotifyHandler p Any Push) (filter (\<lambda>p. HashMap_get (b_connected b) p \<noteq> None) ps)\<rparr>"
  by (induction ps b rule: Behaviour_push.induct) auto

lemma swarm_event_connected:
  "b_connected (on_swarm_event B e b) = b_connected (on_connection_change e b)"
  by (cases e) (auto simp: on_swarm_event_def on_connection_established_def Let_def split: prod.split)

lemma swarm_event_observed:
  "b_our_observed_addresses b = [] \<Longrightarrow> b_our_observed_addresses (on_swarm_event B e b) = []"
  by (cases e) (auto simp: on_swarm_event_def on_connection_established_def Let_def split: prod.split)

section \<open>Connections\<close>

text \<open>The open connections of the swarm, with the address of the remote, and the events that a
  swarm emits: connections are identified uniquely, and a closing event counts the connections
  that remain open to the peer.\<close>

type_synonym live = "((PeerId \<times> ConnectionId) \<times> Multiaddr) list"

fun endpoint_address :: "ConnectedPoint \<Rightarrow> Multiaddr" where
  "endpoint_address (Dialer a) = a"
| "endpoint_address (Listener _ a) = a"

fun live_after :: "'o FromSwarm \<Rightarrow> live \<Rightarrow> live" where
  "live_after (ConnectionEstablished p c e) l = HashMap_insert (p, c) (endpoint_address e) l"
| "live_after (ConnectionClosed p c r) l = HashMap_remove (p, c) l"
| "live_after (OtherFromSwarm _) l = l"

fun swarm_valid :: "'o FromSwarm \<Rightarrow> live \<Rightarrow> bool" where
  "swarm_valid (ConnectionEstablished p c e) l \<longleftrightarrow> HashMap_get l (p, c) = None"
| "swarm_valid (ConnectionClosed p c r) l \<longleftrightarrow>
     HashMap_get l (p, c) \<noteq> None \<and> unat r = length (filter (\<lambda>((p', c'), _). p' = p \<and> c' \<noteq> c) l)"
| "swarm_valid (OtherFromSwarm _) l \<longleftrightarrow> True"

text \<open>A run of the behaviour in a swarm, with the connections that are open at its end.\<close>

inductive swarm_run ::
  "('la, 'ea, 'o) BehaviourLib \<Rightarrow> ('info, 'push, 'la, 'ea) Behaviour \<Rightarrow> live \<Rightarrow>
     ('info, 'push, 'la, 'ea) Behaviour \<Rightarrow> bool"
  for B b0
where
  swarm_start: "swarm_run B b0 [] b0"
| swarm_event: "swarm_run B b0 l b \<Longrightarrow> swarm_valid e l \<Longrightarrow> swarm_run B b0 (live_after e l) (on_swarm_event B e b)"
| swarm_report: "swarm_run B b0 l b \<Longrightarrow> swarm_run B b0 l (on_connection_handler_event p c ev b)"
| swarm_push: "swarm_run B b0 l b \<Longrightarrow> swarm_run B b0 l (Behaviour_push ps b)"
| swarm_poll: "swarm_run B b0 l b \<Longrightarrow> swarm_run B b0 l (snd (Behaviour_poll () b))"

definition connection ::
  "(PeerId, (ConnectionId, Multiaddr) HashMap) HashMap \<Rightarrow> PeerId \<Rightarrow> ConnectionId \<Rightarrow> Multiaddr option" where
  "connection m p c = Option.bind (HashMap_get m p) (\<lambda>cs. HashMap_get cs c)"

definition connected_ok :: "live \<Rightarrow> (PeerId, (ConnectionId, Multiaddr) HashMap) HashMap \<Rightarrow> bool" where
  "connected_ok l m \<longleftrightarrow>
     HashMap_invar m \<and> (\<forall>p cs. HashMap_get m p = Some cs \<longrightarrow> HashMap_invar cs \<and> cs \<noteq> []) \<and>
     (\<forall>p c. connection m p c = HashMap_get l (p, c))"

end
