(* ===== verification/BehaviourProperties.thy ===== *)
theory BehaviourProperties
  imports PeerInfoBehaviour
begin

text \<open>
  The properties of the peer information behaviour: the table of connections is exactly the set of
  open connections of the swarm, every open connection is told about changed addresses, pushes go
  to connected peers only, and events reach the swarm in the order in which they were queued.
\<close>

section \<open>The table of connections\<close>

lemma connection_Some:
  "connection m p c = Some a \<longleftrightarrow> (\<exists>cs. HashMap_get m p = Some cs \<and> HashMap_get cs c = Some a)"
  by (simp add: connection_def bind_eq_Some_conv)

lemma connected_entry:
  "connection (HashMap_entry p [] (HashMap_insert c a) m) p' c' =
     (if p' = p \<and> c' = c then Some a else connection m p' c')"
  by (auto simp: connection_def entry_or_def map_simps split: option.split)

lemma connected_remove:
  "connection (HashMap_remove p m) p' c' = (if p' = p then None else connection m p' c')"
  by (simp add: connection_def map_simps)

lemma connected_modify:
  "connection (HashMap_modify p (HashMap_remove c) m) p' c' =
     (if p' = p \<and> c' = c then None else connection m p' c')"
  by (auto simp: connection_def map_simps split: option.split)
    (cases "HashMap_get m p"; simp add: map_simps)+

lemma update_nonempty [simp]: "HashMap_insert k v m \<noteq> []"
  by (cases m) auto

lemma connected_established:
  assumes "connected_ok l m"
  shows "connected_ok (HashMap_insert (p, c) a l) (HashMap_entry p [] (HashMap_insert c a) m)"
  unfolding connected_ok_def
proof (intro conjI allI impI)
  note ok = assms [unfolded connected_ok_def]
  show "HashMap_invar (HashMap_entry p [] (HashMap_insert c a) m)"
    using ok by (intro hm.invar_entry_or) simp
  fix p' cs assume "HashMap_get (HashMap_entry p [] (HashMap_insert c a) m) p' = Some cs"
  then show "HashMap_invar cs" "cs \<noteq> []"
    using ok by (auto simp: entry_or_def map_simps distinct_update split: if_splits option.splits)
next
  fix p' c'
  show "connection (HashMap_entry p [] (HashMap_insert c a) m) p' c' =
    HashMap_get (HashMap_insert (p, c) a l) (p', c')"
    using assms by (simp add: connected_entry map_simps connected_ok_def)
qed

lemma closed_last:
  assumes "connected_ok l m" "length (filter (\<lambda>((p', c'), _). p' = p \<and> c' \<noteq> c) l) = 0"
  shows "connected_ok (HashMap_remove (p, c) l) (HashMap_remove p m)"
  unfolding connected_ok_def
proof (intro conjI allI impI)
  note ok = assms(1) [unfolded connected_ok_def]
  show "HashMap_invar (HashMap_remove p m)" using ok by (simp add: distinct_delete)
  fix p' cs assume "HashMap_get (HashMap_remove p m) p' = Some cs"
  then show "HashMap_invar cs" "cs \<noteq> []"
    using ok by (auto simp: map_simps split: if_splits)
next
  fix p' c'
  have "HashMap_get l (p, d) = None" if "d \<noteq> c" for d
    using assms(2) that by (force simp: map_of_eq_None_iff filter_empty_conv)
  then show "connection (HashMap_remove p m) p' c' = HashMap_get (HashMap_remove (p, c) l) (p', c')"
    using assms(1) by (auto simp: connected_remove map_simps connected_ok_def)
qed

lemma closed_other:
  assumes "connected_ok l m" "length (filter (\<lambda>((p', c'), _). p' = p \<and> c' \<noteq> c) l) \<noteq> 0"
  shows "connected_ok (HashMap_remove (p, c) l) (HashMap_modify p (HashMap_remove c) m)"
  unfolding connected_ok_def
proof (intro conjI allI impI)
  note ok = assms(1) [unfolded connected_ok_def]
  obtain d b where "((p, d), b) \<in> set l" "d \<noteq> c"
    using assms(2) by (auto simp: filter_empty_conv)
  then have "HashMap_get l (p, d) \<noteq> None" unfolding map_of_eq_None_iff by (metis fst_conv image_eqI)
  then have "connection m p d \<noteq> None" using ok by simp
  then obtain cs0 b' where cs0: "HashMap_get m p = Some cs0" "HashMap_get cs0 d = Some b'"
    by (auto simp: connection_Some)
  have ne: "HashMap_remove c cs0 \<noteq> []"
    using cs0(2) \<open>d \<noteq> c\<close> HashMap_get_remove [of c cs0 d] by (metis map_of.simps(1) option.distinct(1))
  show "HashMap_invar (HashMap_modify p (HashMap_remove c) m)"
    using ok by (simp add: dom_map_entry distinct_map_entry)
  fix p' cs assume "HashMap_get (HashMap_modify p (HashMap_remove c) m) p' = Some cs"
  then show "HashMap_invar cs" "cs \<noteq> []"
    using ok ne cs0(1) by (auto simp: map_simps distinct_delete split: if_splits)
next
  fix p' c'
  show "connection (HashMap_modify p (HashMap_remove c) m) p' c' = HashMap_get (HashMap_remove (p, c) l) (p', c')"
    using assms(1) by (simp add: connected_modify map_simps connected_ok_def)
qed

lemma connected_event:
  assumes "connected_ok l (b_connected b)" "swarm_valid e l"
  shows "connected_ok (live_after e l) (b_connected (on_swarm_event B e b))"
proof (cases e)
  case (ConnectionEstablished p c ep)
  with connected_established [OF assms(1), of p c "endpoint_address ep"] show ?thesis
    by (cases ep) (simp_all add: swarm_event_connected on_connection_established_def)
next
  case (ConnectionClosed p c r)
  show ?thesis
  proof (cases "r = 0")
    case True
    with ConnectionClosed assms closed_last [OF assms(1), of p c] show ?thesis
      by (simp add: swarm_event_connected)
  next
    case False
    then have "unat r \<noteq> 0" by (simp add: unat_eq_0)
    with False ConnectionClosed assms closed_other [OF assms(1), of p c] show ?thesis
      by (simp add: swarm_event_connected)
  qed
qed (use assms in \<open>simp add: swarm_event_connected\<close>)

lemma poll_keeps [simp]:
  "b_connected (snd (Behaviour_poll cx b)) = b_connected b"
  "b_our_observed_addresses (snd (Behaviour_poll cx b)) = b_our_observed_addresses b"
  by (simp_all add: Behaviour_poll_def split: list.split)

lemma swarm_run_connected:
  assumes "swarm_run B (Behaviour_new B cfg info) l b"
  shows "connected_ok l (b_connected b)"
  using assms
  by induction (simp_all add: connected_event push_append on_connection_handler_event_def,
      simp add: Behaviour_new_def connected_ok_def connection_def)

lemma swarm_run_observed:
  assumes "swarm_run B (Behaviour_new B cfg info) l b"
  shows "b_our_observed_addresses b = []"
  using assms
  by induction (simp_all add: swarm_event_observed push_append on_connection_handler_event_def,
      simp add: Behaviour_new_def)

lemma connected_peer:
  assumes "connected_ok l m"
  shows "HashMap_get m p \<noteq> None \<longleftrightarrow> (\<exists>c. HashMap_get l (p, c) \<noteq> None)"
proof
  assume "HashMap_get m p \<noteq> None"
  then obtain cs where cs: "HashMap_get m p = Some cs" by auto
  with assms obtain c a rest where "cs = (c, a) # rest"
    unfolding connected_ok_def by (metis list.exhaust surj_pair)
  with cs have "connection m p c = Some a" by (simp add: connection_def)
  with assms have "HashMap_get l (p, c) = Some a" by (simp add: connected_ok_def)
  then show "\<exists>c. HashMap_get l (p, c) \<noteq> None" by auto
next
  assume "\<exists>c. HashMap_get l (p, c) \<noteq> None"
  with assms have "\<exists>c. connection m p c \<noteq> None" by (simp add: connected_ok_def)
  then show "HashMap_get m p \<noteq> None" by (auto simp: connection_def bind_eq_Some_conv)
qed

section \<open>Notifications\<close>

text \<open>The pairs of peer and connection over which the notifications of changed addresses run.\<close>

definition connection_pairs ::
  "(PeerId, (ConnectionId, Multiaddr) HashMap) HashMap \<Rightarrow> (PeerId \<times> ConnectionId) list" where
  "connection_pairs m = concat (map (\<lambda>(peer, cs). map (\<lambda>(i, _). (peer, i)) cs) m)"

lemma set_connection_pairs:
  "set (connection_pairs m) = (\<Union>(p, cs) \<in> set m. Pair p ` fst ` set cs)"
  by (force simp: connection_pairs_def)

lemma connection_pairs_live:
  assumes "connected_ok l m"
  shows "(p, c) \<in> set (connection_pairs m) \<longleftrightarrow> HashMap_get l (p, c) \<noteq> None"
proof -
  have inv: "HashMap_invar m" using assms by (simp only: connected_ok_def)
  have "(p, c) \<in> set (connection_pairs m) \<longleftrightarrow> (\<exists>cs. HashMap_get m p = Some cs \<and> c \<in> fst ` set cs)"
    by (force simp: set_connection_pairs map_of_eq_Some_iff [OF inv])
  also have "\<dots> \<longleftrightarrow> connection m p c \<noteq> None"
  proof (cases "HashMap_get m p")
    case (Some cs)
    have "c \<in> fst ` set cs \<longleftrightarrow> HashMap_get cs c \<noteq> None" unfolding map_of_eq_None_iff by simp
    with Some show ?thesis by (simp add: connection_def)
  qed (simp add: connection_def)
  finally show ?thesis using assms by (simp add: connected_ok_def)
qed

lemma distinct_connection_pairs:
  assumes "HashMap_invar m" "\<And>p cs. (p, cs) \<in> set m \<Longrightarrow> HashMap_invar cs"
  shows "distinct (connection_pairs m)"
  using assms
proof (induction m)
  case (Cons x m)
  obtain p cs where x: "x = (p, cs)" by fastforce
  have "distinct (map (\<lambda>(i, _). (p, i)) cs)"
  proof -
    have "map (\<lambda>(i, _). (p, i)) cs = map (Pair p) (map fst cs)" by (simp add: case_prod_beta)
    moreover have "HashMap_invar cs" by (rule Cons.prems(2) [of p]) (simp add: x)
    ultimately show ?thesis by (simp only: distinct_map [of "Pair p"]) (simp add: inj_on_def)
  qed
  moreover have "distinct (connection_pairs m)"
    by (rule Cons.IH) (use Cons.prems(1) in simp, blast intro: Cons.prems(2) list.set_intros(2))
  moreover have "(p, c) \<notin> set (connection_pairs m)" for c
    using Cons.prems(1) x by (force simp: set_connection_pairs)
  moreover have "connection_pairs (x # m) = map (\<lambda>(i, _). (p, i)) cs @ connection_pairs m"
    by (simp add: connection_pairs_def x)
  ultimately show ?case by auto
qed (simp add: connection_pairs_def)

lemma change_events_pairs:
  "change_events B b =
     map (\<lambda>(p, c). NotifyHandler p (One c) (AddressesChanged (all_addresses B b))) (connection_pairs (b_connected b))"
  by (simp add: change_events_def connection_pairs_def)

lemma change_events_live:
  assumes "connected_ok l (b_connected b)"
  shows "distinct (change_events B b) \<and>
    set (change_events B b) =
      {NotifyHandler p (One c) (AddressesChanged (all_addresses B b)) | p c. HashMap_get l (p, c) \<noteq> None}"
proof
  have "distinct (connection_pairs (b_connected b))"
    using assms by (intro distinct_connection_pairs) (auto simp: connected_ok_def map_of_eq_Some_iff)
  then show "distinct (change_events B b)"
    by (simp add: change_events_pairs distinct_map inj_on_def split: prod.split)
  show "set (change_events B b) =
      {NotifyHandler p (One c) (AddressesChanged (all_addresses B b)) | p c. HashMap_get l (p, c) \<noteq> None}"
    using connection_pairs_live [OF assms] by (auto simp: change_events_pairs)
qed

lemma on_connection_change_events:
  "b_events (on_connection_change e b) = b_events b"
  by (cases e) (simp_all add: on_connection_established_def)

lemma swarm_event_events:
  assumes "ListenAddresses_on_swarm_event B e (b_listen_addresses b) = (lc, la)"
    and "ExternalAddresses_on_swarm_event B e (b_external_addresses b) = (ec, ea)"
  shows "b_events (on_swarm_event B e b) = b_events b @
    (if lc \<or> ec then change_events B (b\<lparr>b_listen_addresses := la, b_external_addresses := ea\<rparr>) else []) @
    (if lc \<and> push_listen_addr_updates (b_config b) then push_events b else [])"
  using assms by (auto simp: on_swarm_event_def on_connection_change_events Let_def push_events_def)

section \<open>A concrete swarm\<close>

text \<open>Address books that take every foreign event as a new listen address.\<close>

definition demo_books :: "(Multiaddr list, unit, Multiaddr) BehaviourLib" where
  "demo_books =
     \<lparr>ListenAddresses_default = [],
      ListenAddresses_on_swarm_event = (\<lambda>e la. case e of OtherFromSwarm a \<Rightarrow> (True, la @ [a]) | _ \<Rightarrow> (False, la)),
      ListenAddresses_iter = (\<lambda>la. la),
      ExternalAddresses_default = (), ExternalAddresses_on_swarm_event = (\<lambda>_ _. (False, ())),
      ExternalAddresses_iter = (\<lambda>_. [])\<rparr>"

definition demo_behaviour :: "(u8 list, u8 list, Multiaddr list, unit) Behaviour" where
  "demo_behaviour =
     Behaviour_new demo_books (with_push_listen_addr_updates True (Config_new ''v'' [] ''/a'' ''/b'')) [9]"

definition demo_swarm_events :: "Multiaddr FromSwarm list" where
  "demo_swarm_events =
     [ConnectionEstablished [1] 1 (Dialer [10]), ConnectionEstablished [2] 2 (Listener [0] [20]),
      ConnectionEstablished [1] 3 (Dialer [11]), ConnectionClosed [1] 1 1, ConnectionClosed [2] 2 0]"

fun run_swarm where
  "run_swarm B [] l b = (l, b)"
| "run_swarm B (e # es) l b = run_swarm B es (live_after e l) (on_swarm_event B e b)"

fun valid_events where
  "valid_events [] l \<longleftrightarrow> True"
| "valid_events (e # es) l \<longleftrightarrow> swarm_valid e l \<and> valid_events es (live_after e l)"

lemma run_swarm_run:
  "swarm_run B b0 l b \<Longrightarrow> valid_events es l \<Longrightarrow>
     swarm_run B b0 (fst (run_swarm B es l b)) (snd (run_swarm B es l b))"
  by (induction B es l b rule: run_swarm.induct) (auto intro: swarm_event)

definition demo_swarm :: "(u8 list, u8 list, Multiaddr list, unit) Behaviour" where
  "demo_swarm = snd (run_swarm demo_books demo_swarm_events [] demo_behaviour)"

lemma demo_swarm_run: "swarm_run demo_books demo_behaviour [(([1], 3), [11])] demo_swarm"
proof -
  have "valid_events demo_swarm_events []"
    "fst (run_swarm demo_books demo_swarm_events [] demo_behaviour) = [(([1], 3), [11])]" by code_simp+
  with run_swarm_run [OF swarm_start, of demo_swarm_events demo_books demo_behaviour] show ?thesis
    by (simp add: demo_swarm_def)
qed

section \<open>Properties\<close>

text \<open>C14. In every run of the behaviour in a swarm the table of connections is exactly the set of
  open connections with the addresses of their remote ends, a peer is listed if and only if it has
  an open connection, and no observed address is ever recorded.\<close>

theorem connected_tracks_swarm:
  assumes "swarm_run B (Behaviour_new B config info) l b"
  shows "connection (b_connected b) p c = HashMap_get l (p, c) \<and>
    (HashMap_get (b_connected b) p \<noteq> None \<longleftrightarrow> (\<exists>c. HashMap_get l (p, c) \<noteq> None)) \<and>
    b_our_observed_addresses b = []"
  using swarm_run_connected [OF assms] connected_peer [OF swarm_run_connected [OF assms], of p]
    swarm_run_observed [OF assms]
  by (simp add: connected_ok_def)

theorem connected_tracks_swarm_witness:
  "connection (b_connected demo_swarm) [1] 3 = Some [11] \<and> HashMap_get (b_connected demo_swarm) [2] = None"
  using connected_tracks_swarm [OF demo_swarm_run [unfolded demo_behaviour_def], of "[1]" 3]
    connected_tracks_swarm [OF demo_swarm_run [unfolded demo_behaviour_def], of "[2]" 2]
  by simp

text \<open>C34. When the address books report a change, the behaviour queues, behind what is queued
  already, exactly one notification with the new addresses for every open connection and for no
  other, and then, only if a listen address changed and pushing is configured, one push order per
  connected peer.\<close>

theorem address_change_notifies:
  assumes run: "swarm_run B (Behaviour_new B config info) l b"
    and la: "ListenAddresses_on_swarm_event B e (b_listen_addresses b) = (lc, la)"
    and ea: "ExternalAddresses_on_swarm_event B e (b_external_addresses b) = (ec, ea)"
    and changed: "lc \<or> ec"
  shows "\<exists>notes. b_events (on_swarm_event B e b) = b_events b @ notes @
      (if lc \<and> push_listen_addr_updates (b_config b) then push_events b else []) \<and>
    distinct notes \<and>
    set notes = {NotifyHandler p (One c)
      (AddressesChanged (set (ListenAddresses_iter B la) \<union> set (ExternalAddresses_iter B ea))) | p c.
      HashMap_get l (p, c) \<noteq> None}"
proof -
  let ?b = "b\<lparr>b_listen_addresses := la, b_external_addresses := ea\<rparr>"
  have "connected_ok l (b_connected ?b)" using swarm_run_connected [OF run] by simp
  from change_events_live [OF this, of B] swarm_event_events [OF la ea] changed show ?thesis
    by (intro exI [of _ "change_events B ?b"]) (simp add: all_addresses_def)
qed

theorem address_change_notifies_witness:
  "\<exists>notes. b_events (on_swarm_event demo_books (OtherFromSwarm [7]) demo_swarm) =
      b_events demo_swarm @ notes @ [NotifyHandler [1] Any Push] \<and> distinct notes \<and>
      set notes = {NotifyHandler p (One c) (AddressesChanged {[7]}) | p c.
        HashMap_get [(([1 :: u8], 3 :: usize), [11 :: u8])] (p, c) \<noteq> None}"
proof -
  have "ListenAddresses_on_swarm_event demo_books (OtherFromSwarm [7]) (b_listen_addresses demo_swarm) = (True, [[7]])"
    "ExternalAddresses_on_swarm_event demo_books (OtherFromSwarm [7]) (b_external_addresses demo_swarm) = (False, ())"
    by code_simp+
  note addr = address_change_notifies [OF demo_swarm_run [unfolded demo_behaviour_def] this]
  have "push_listen_addr_updates (b_config demo_swarm)" "push_events demo_swarm = [NotifyHandler [1] Any Push]"
    "set (ListenAddresses_iter demo_books [[7]]) \<union> set (ExternalAddresses_iter demo_books ()) = {[7]}"
    by code_simp+
  with addr show ?thesis by simp
qed

text \<open>\<open>push\<close> queues, behind what is queued already, one push order for every listed peer that
  has an open connection, in the order of the list, and none for the others.\<close>

lemma push_reaches_connected:
  assumes "swarm_run B (Behaviour_new B config info) l b"
  shows "b_events (Behaviour_push ps b) = b_events b @
    map (\<lambda>p. NotifyHandler p Any Push) (filter (\<lambda>p. \<exists>c. HashMap_get l (p, c) \<noteq> None) ps)"
  using connected_peer [OF swarm_run_connected [OF assms]] by (simp add: push_append)

text \<open>The reports of the handlers reach the swarm one per poll, each under the peer that it came
  from, in the order in which they were received and behind what was queued before.\<close>

lemma reports_in_order:
  assumes "length cxs = length (b_events b) + length reports"
  shows "fst (polls Behaviour_poll cxs
      (fold (\<lambda>(p, c, e). on_connection_handler_event p c e) reports b)) =
    map Ready (b_events b @ map (\<lambda>(p, c, e). GenerateEvent (handler_report p e)) reports)"
proof -
  have "b_events (fold (\<lambda>(p, c, e). on_connection_handler_event p c e) reports b) =
      b_events b @ map (\<lambda>(p, c, e). GenerateEvent (handler_report p e)) reports"
    by (induction reports arbitrary: b) (auto simp: on_connection_handler_event_def)
  then show ?thesis using assms by (simp add: bq.polls_drain)
qed

end
