(* ===== verification/PeerNode.thy ===== *)
theory PeerNode
  imports HandlerProperties BehaviourProperties
begin

text \<open>
  The behaviour of \<open>behaviour.rs\<close> together with the handlers of \<open>handler.rs\<close> that it creates: the
  peer information protocol of a whole node. A node is the behaviour, one handler per open
  connection, the events that the behaviour reported so far and, to speak about where they come from,
  the connection events that each handler was given (\<open>pn_history\<close>). The steps are those of a swarm of
  \<open>libp2p\<close>: it opens and closes connections, passes other events to the behaviour, drives the
  handlers, brings what they notify to the behaviour, and brings the orders of the behaviour to one
  handler or to any handler of a peer, which \<open>pick\<close> chooses. Identifiers of connections are never
  used twice; an order for a closed connection is dropped.
\<close>

section \<open>Steps\<close>

record ('info, 'push, 'la, 'ea, 'fs, 'delay, 'sp, 'io, 'chg) PeerNode =
  pn_behaviour :: "('info, 'push, 'la, 'ea) Behaviour"
  pn_handlers :: "(PeerId \<times> ConnectionId, ('info, 'push, 'fs, 'delay, 'sp) Handler) HashMap"
  pn_reports :: "('info, 'push) Behaviour_Event list"
  pn_used :: "ConnectionId list"
  pn_history :: "((PeerId \<times> ConnectionId) \<times> ('io, 'chg) ConnectionEvent) list"

definition node_new ::
  "('la, 'ea, 'o) BehaviourLib \<Rightarrow> Config \<Rightarrow> 'info \<Rightarrow> ('info, 'push, 'la, 'ea, 'fs, 'delay, 'sp, 'io, 'chg) PeerNode" where
  "node_new B config info =
     \<lparr>pn_behaviour = Behaviour_new B config info, pn_handlers = [], pn_reports = [], pn_used = [],
      pn_history = []\<rparr>"

definition node_connect ::
  "('fs, 'fut, 'out, 'delay, 'sp, 'chg, 'cx) HandlerLib \<Rightarrow> ('la, 'ea, 'o) BehaviourLib \<Rightarrow> bool \<Rightarrow>
     PeerId \<Rightarrow> ConnectionId \<Rightarrow> ConnectedPoint \<Rightarrow> ('info, 'push, 'la, 'ea, 'fs, 'delay, 'sp, 'io, 'chg) PeerNode \<Rightarrow>
     ('info, 'push, 'la, 'ea, 'fs, 'delay, 'sp, 'io, 'chg) PeerNode" where
  "node_connect L B inbound p c endpoint n =
     (case (if inbound then handle_established_inbound_connection L B p (pn_behaviour n)
            else handle_established_outbound_connection L B p (pn_behaviour n)) of
        Err _ \<Rightarrow> n
      | Ok h \<Rightarrow> n\<lparr>pn_behaviour := on_swarm_event B (ConnectionEstablished p c endpoint) (pn_behaviour n),
                 pn_handlers := HashMap_insert (p, c) h (pn_handlers n),
                 pn_used := c # pn_used n\<rparr>)"

definition node_close ::
  "('la, 'ea, 'o) BehaviourLib \<Rightarrow> PeerId \<Rightarrow> ConnectionId \<Rightarrow> usize \<Rightarrow>
     ('info, 'push, 'la, 'ea, 'fs, 'delay, 'sp, 'io, 'chg) PeerNode \<Rightarrow>
     ('info, 'push, 'la, 'ea, 'fs, 'delay, 'sp, 'io, 'chg) PeerNode" where
  "node_close B p c remaining n =
     n\<lparr>pn_behaviour := on_swarm_event B (ConnectionClosed p c remaining) (pn_behaviour n),
       pn_handlers := HashMap_remove (p, c) (pn_handlers n)\<rparr>"

definition node_event ::
  "('la, 'ea, 'o) BehaviourLib \<Rightarrow> 'o \<Rightarrow> ('info, 'push, 'la, 'ea, 'fs, 'delay, 'sp, 'io, 'chg) PeerNode \<Rightarrow>
     ('info, 'push, 'la, 'ea, 'fs, 'delay, 'sp, 'io, 'chg) PeerNode" where
  "node_event B ev n = n\<lparr>pn_behaviour := on_swarm_event B (OtherFromSwarm ev) (pn_behaviour n)\<rparr>"

fun deliver ::
  "PeerId \<Rightarrow> ConnectionId \<Rightarrow> ('info, 'push) ConnectionHandlerEvent \<Rightarrow>
     ('info, 'push, 'la, 'ea) Behaviour \<Rightarrow> ('info, 'push, 'la, 'ea) Behaviour" where
  "deliver p c (NotifyBehaviour e) b = on_connection_handler_event p c e b"
| "deliver p c (OutboundSubstreamRequest _) b = b"

fun connection_events :: "('io, 'chg, 'cx) handler_input \<Rightarrow> ('io, 'chg) ConnectionEvent list" where
  "connection_events (In_connection e) = [e]"
| "connection_events _ = []"

definition node_handler ::
  "('info, 'push) Info \<Rightarrow> ('fs, 'io, 'info, 'push, 'delay, 'sp, 'chg, 'cx) handler_lib \<Rightarrow>
     PeerId \<Rightarrow> ConnectionId \<Rightarrow> ('io, 'chg, 'cx) handler_input \<Rightarrow>
     ('info, 'push, 'la, 'ea, 'fs, 'delay, 'sp, 'io, 'chg) PeerNode \<Rightarrow>
     ('info, 'push, 'la, 'ea, 'fs, 'delay, 'sp, 'io, 'chg) PeerNode" where
  "node_handler I L p c i n =
     (case HashMap_get (pn_handlers n) (p, c) of
        None \<Rightarrow> n
      | Some h \<Rightarrow>
          (let (es, h') = handler_step I L i h
           in n\<lparr>pn_behaviour := fold (deliver p c) es (pn_behaviour n),
                pn_handlers := HashMap_modify (p, c) (\<lambda>_. h') (pn_handlers n),
                pn_history := pn_history n @ map (Pair (p, c)) (connection_events i)\<rparr>))"

fun node_order ::
  "(ConnectionId list \<Rightarrow> ConnectionId) \<Rightarrow> ('info, 'push) ToSwarm \<Rightarrow>
     ('info, 'push, 'la, 'ea, 'fs, 'delay, 'sp, 'io, 'chg) PeerNode \<Rightarrow>
     ('info, 'push, 'la, 'ea, 'fs, 'delay, 'sp, 'io, 'chg) PeerNode" where
  "node_order pick (GenerateEvent e) n = n\<lparr>pn_reports := pn_reports n @ [e]\<rparr>"
| "node_order pick (NotifyHandler p (One c) e) n =
     n\<lparr>pn_handlers := HashMap_modify (p, c) (on_behaviour_event e) (pn_handlers n)\<rparr>"
| "node_order pick (NotifyHandler p Any e) n =
     (let cs = map (snd \<circ> fst) (filter (\<lambda>((p', _), _). p' = p) (pn_handlers n))
      in if cs = [] then n
         else n\<lparr>pn_handlers := HashMap_modify (p, pick cs) (on_behaviour_event e) (pn_handlers n)\<rparr>)"

definition node_poll ::
  "(ConnectionId list \<Rightarrow> ConnectionId) \<Rightarrow> ('info, 'push, 'la, 'ea, 'fs, 'delay, 'sp, 'io, 'chg) PeerNode \<Rightarrow>
     ('info, 'push, 'la, 'ea, 'fs, 'delay, 'sp, 'io, 'chg) PeerNode" where
  "node_poll pick n =
     (case Behaviour_poll () (pn_behaviour n) of
        (Pending, b) \<Rightarrow> n
      | (Ready e, b) \<Rightarrow> node_order pick e (n\<lparr>pn_behaviour := b\<rparr>))"

definition node_push ::
  "PeerId list \<Rightarrow> ('info, 'push, 'la, 'ea, 'fs, 'delay, 'sp, 'io, 'chg) PeerNode \<Rightarrow>
     ('info, 'push, 'la, 'ea, 'fs, 'delay, 'sp, 'io, 'chg) PeerNode" where
  "node_push ps n = n\<lparr>pn_behaviour := Behaviour_push ps (pn_behaviour n)\<rparr>"

definition other_connections :: "PeerId \<Rightarrow> ConnectionId \<Rightarrow> (PeerId \<times> ConnectionId) list \<Rightarrow> nat" where
  "other_connections p c ks = length (filter (\<lambda>(p', c'). p' = p \<and> c' \<noteq> c) ks)"

inductive node_run ::
  "('info, 'push) Info \<Rightarrow> ('fs, 'io, 'info, 'push, 'delay, 'sp, 'chg, 'cx) handler_lib \<Rightarrow>
     ('la, 'ea, 'o) BehaviourLib \<Rightarrow> Config \<Rightarrow> 'info \<Rightarrow>
     ('info, 'push, 'la, 'ea, 'fs, 'delay, 'sp, 'io, 'chg) PeerNode \<Rightarrow> bool"
  for I L B config info
where
  run_new: "node_run I L B config info (node_new B config info)"
| run_connect: "node_run I L B config info n \<Longrightarrow> c \<notin> set (pn_used n) \<Longrightarrow>
    node_run I L B config info (node_connect L B inbound p c endpoint n)"
| run_close: "node_run I L B config info n \<Longrightarrow> HashMap_get (pn_handlers n) (p, c) \<noteq> None \<Longrightarrow>
    unat r = other_connections p c (map fst (pn_handlers n)) \<Longrightarrow>
    node_run I L B config info (node_close B p c r n)"
| run_event: "node_run I L B config info n \<Longrightarrow> node_run I L B config info (node_event B ev n)"
| run_connection: "node_run I L B config info n \<Longrightarrow>
    node_run I L B config info (node_handler I L p c (In_connection ce) n)"
| run_handler_poll: "node_run I L B config info n \<Longrightarrow>
    node_run I L B config info (node_handler I L p c (In_poll cx) n)"
| run_poll: "node_run I L B config info n \<Longrightarrow> node_run I L B config info (node_poll pick n)"
| run_push: "node_run I L B config info n \<Longrightarrow> node_run I L B config info (node_push ps n)"

section \<open>The table of handlers\<close>

lemma keys_modify [simp]: "map fst (HashMap_modify k f m) = map fst m"
  by (induction m) auto

lemma keys_insert: "map fst (HashMap_insert k v m) = (if k \<in> set (map fst m) then map fst m else map fst m @ [k])"
  by (induction m) auto

lemma keys_remove: "map fst (HashMap_remove k m) = filter (\<lambda>k'. k' \<noteq> k) (map fst m)"
  by (induction m) auto

lemma live_key: "map fst l = map fst m \<Longrightarrow> HashMap_get l k = None \<longleftrightarrow> HashMap_get m k = None"
  by (metis list.set_map map_of_eq_None_iff)

lemma other_connections_live:
  "length (filter (\<lambda>((p', c'), _). p' = p \<and> c' \<noteq> c) l) = other_connections p c (map fst l)"
  unfolding other_connections_def by (induction l) auto

lemma deliver_run:
  "swarm_run B b0 l b \<Longrightarrow> swarm_run B b0 l (fold (deliver p c) es b)"
proof (induction es arbitrary: b)
  case (Cons e es)
  then show ?case by (cases e) (auto intro: swarm_report)
qed simp

lemma node_order_behaviour [simp]: "pn_behaviour (node_order pick e n) = pn_behaviour n"
  by (induction pick e n rule: node_order.induct) (simp_all add: Let_def)

lemma node_order_keys [simp]: "map fst (pn_handlers (node_order pick e n)) = map fst (pn_handlers n)"
  by (induction pick e n rule: node_order.induct) (simp_all add: Let_def)

lemma node_order_used [simp]: "pn_used (node_order pick e n) = pn_used n"
  by (induction pick e n rule: node_order.induct) (simp_all add: Let_def)

lemma node_poll_behaviour: "pn_behaviour (node_poll pick n) = snd (Behaviour_poll () (pn_behaviour n))"
  by (auto simp: node_poll_def Behaviour_poll_def split: list.split)

lemma node_poll_keys [simp]:
  "map fst (pn_handlers (node_poll pick n)) = map fst (pn_handlers n)" "pn_used (node_poll pick n) = pn_used n"
  by (auto simp: node_poll_def split: prod.split Poll.split)

lemma node_handler_keys [simp]:
  "map fst (pn_handlers (node_handler I L p c i n)) = map fst (pn_handlers n)"
  "pn_used (node_handler I L p c i n) = pn_used n"
  by (auto simp: node_handler_def split: option.split prod.split)

lemma node_handler_behaviour:
  "\<exists>es. pn_behaviour (node_handler I L p c i n) = fold (deliver p c) es (pn_behaviour n)"
  by (auto simp: node_handler_def split: option.split prod.split intro: exI [of _ "[]"])

text \<open>Handlers are kept for connections that were opened.\<close>

lemma node_run_used:
  "node_run I L B config info n \<Longrightarrow> (p, c) \<in> set (map fst (pn_handlers n)) \<Longrightarrow> c \<in> set (pn_used n)"
proof (induction arbitrary: p c rule: node_run.induct)
  case (run_connect n c inbound p endpoint)
  then show ?case
    by (auto simp: node_connect_def keys_insert simp del: set_map split: Result.splits if_splits)
next
  case (run_close n p c r)
  then show ?case by (auto simp: node_close_def keys_remove simp del: set_map)
qed (simp_all add: node_new_def node_event_def node_push_def del: set_map)

lemma node_run_swarm:
  assumes "node_run I L B config info n"
  shows "\<exists>l. swarm_run B (Behaviour_new B config info) l (pn_behaviour n) \<and> map fst l = map fst (pn_handlers n)"
  using assms
proof (induction rule: node_run.induct)
  case run_new
  then show ?case by (auto simp: node_new_def intro: swarm_start)
next
  case (run_connect n c inbound p endpoint)
  then obtain l where l: "swarm_run B (Behaviour_new B config info) l (pn_behaviour n)"
    "map fst l = map fst (pn_handlers n)" by blast
  have "(p, c) \<notin> set (map fst l)" using node_run_used [OF run_connect.hyps(1)] run_connect.hyps(2) l(2) by metis
  then have "HashMap_get l (p, c) = None" by (simp add: map_of_eq_None_iff)
  from swarm_event [OF l(1), of "ConnectionEstablished p c endpoint"] this l(2) show ?case
    by (intro exI [of _ "HashMap_insert (p, c) (endpoint_address endpoint) l"])
      (auto simp: node_connect_def keys_insert handle_established_inbound_connection_def
        handle_established_outbound_connection_def)
next
  case (run_close n p c r)
  then obtain l where l: "swarm_run B (Behaviour_new B config info) l (pn_behaviour n)"
    "map fst l = map fst (pn_handlers n)" by blast
  have "swarm_valid (ConnectionClosed p c r) l"
    using run_close.hyps(2,3) l(2) live_key [OF l(2), of "(p, c)"] by (simp add: other_connections_live)
  from swarm_event [OF l(1) this] l(2) show ?case
    by (intro exI [of _ "HashMap_remove (p, c) l"]) (simp add: node_close_def keys_remove)
next
  case (run_event n ev)
  then show ?case using swarm_event [of B _ _ _ "OtherFromSwarm ev"] by (fastforce simp: node_event_def)
next
  case (run_connection n p c ce)
  then show ?case using deliver_run node_handler_behaviour [of I L p c "In_connection ce" n] by fastforce
next
  case (run_handler_poll n p c cx)
  then show ?case using deliver_run node_handler_behaviour [of I L p c "In_poll cx" n] by fastforce
next
  case (run_poll n pick)
  then show ?case by (auto simp: node_poll_behaviour intro: swarm_poll)
next
  case (run_push n ps)
  then show ?case by (auto simp: node_push_def intro: swarm_push)
qed

end
