(* ===== verification/PeerNodeProperties.thy ===== *)
theory PeerNodeProperties
  imports PeerNode
begin

text \<open>
  The properties of a node: there is one handler for every connection the behaviour knows, what the
  node reports about a peer comes from streams of a connection with that peer, and, once the orders
  that are queued have been carried out, every handler knows the addresses of the node.
\<close>

section \<open>Truthful reports\<close>

text \<open>The connection events that the handler of one connection was given.\<close>

definition events_on ::
  "((PeerId \<times> ConnectionId) \<times> ('io, 'chg) ConnectionEvent) list \<Rightarrow> PeerId \<Rightarrow> ConnectionId \<Rightarrow>
     ('io, 'chg) ConnectionEvent set" where
  "events_on H p c = {e. ((p, c), e) \<in> set H}"

text \<open>A truthful report about the peer \<open>p\<close>: what it says happened on a connection with \<open>p\<close>.\<close>

fun report_ok ::
  "('info, 'push) Info \<Rightarrow> ('io, 'info, 'push) Codec \<Rightarrow> 'info \<Rightarrow>
     ((PeerId \<times> ConnectionId) \<times> ('io, 'chg) ConnectionEvent) list \<Rightarrow> ('info, 'push) Behaviour_Event \<Rightarrow> bool" where
  "report_ok I C li H (Received p info) \<longleftrightarrow> (\<exists>c. heard I C (events_on H p c) info)"
| "report_ok I C li H (Pushed p push) \<longleftrightarrow> push = info_into_push I li \<and>
     (\<exists>c io. FullyNegotiatedOutbound (Right io) \<in> events_on H p c \<and> fst (codec_write_push_info C io push) = Ok ())"
| "report_ok I C li H (Sent p) \<longleftrightarrow>
     (\<exists>c io. FullyNegotiatedInbound (Left io) \<in> events_on H p c \<and> fst (codec_write_info C io li) = Ok ())"
| "report_ok I C li H (Error p error) \<longleftrightarrow> True"

fun order_ok ::
  "('info, 'push) Info \<Rightarrow> ('io, 'info, 'push) Codec \<Rightarrow> 'info \<Rightarrow>
     ((PeerId \<times> ConnectionId) \<times> ('io, 'chg) ConnectionEvent) list \<Rightarrow> ('info, 'push) ToSwarm \<Rightarrow> bool" where
  "order_ok I C li H (GenerateEvent e) \<longleftrightarrow> report_ok I C li H e"
| "order_ok I C li H (NotifyHandler _ _ _) \<longleftrightarrow> True"

definition handler_ok where
  "handler_ok I C inflight cap li E h \<longleftrightarrow> flight_ok I C inflight cap E h \<and> h_local_info h = li"

definition node_truth where
  "node_truth I C inflight cap li n \<longleftrightarrow>
     b_local_info (pn_behaviour n) = li \<and>
     (\<forall>p c h. HashMap_get (pn_handlers n) (p, c) = Some h \<longrightarrow>
        handler_ok I C inflight cap li (events_on (pn_history n) p c) h) \<and>
     (\<forall>e \<in> set (b_events (pn_behaviour n)). order_ok I C li (pn_history n) e) \<and>
     (\<forall>e \<in> set (pn_reports n). report_ok I C li (pn_history n) e)"

lemma events_on_append:
  "events_on (H @ map (Pair (p, c)) (connection_events i)) p' c' =
     (if p' = p \<and> c' = c then events_on H p c \<union> conn_events [i] else events_on H p' c')"
  by (cases i) (auto simp: events_on_def)

lemma events_on_mono: "events_on H p c \<subseteq> events_on (H @ H') p c"
  by (auto simp: events_on_def)

lemma report_ok_mono: "report_ok I C li H e \<Longrightarrow> report_ok I C li (H @ H') e"
  using events_on_mono [of H _ _ H'] by (cases e) (auto, (blast intro: heard_mono)+)

lemma order_ok_mono: "order_ok I C li H e \<Longrightarrow> order_ok I C li (H @ H') e"
  by (cases e) (simp_all add: report_ok_mono)

lemma handler_report_ok:
  "truthful I C li (events_on H p c) (NotifyBehaviour e) \<Longrightarrow> report_ok I C li H (handler_report p e)"
  by (cases e) auto

lemma swarm_event_info [simp]: "b_local_info (on_swarm_event B e b) = b_local_info b"
  by (cases e) (auto simp: on_swarm_event_def on_connection_established_def Let_def split: prod.split)

lemma swarm_event_orders_ok:
  "\<forall>e \<in> set (b_events b). order_ok I C li H e \<Longrightarrow> \<forall>e \<in> set (b_events (on_swarm_event B ev b)). order_ok I C li H e"
  by (cases "ListenAddresses_on_swarm_event B ev (b_listen_addresses b)";
      cases "ExternalAddresses_on_swarm_event B ev (b_external_addresses b)")
    (auto simp: swarm_event_events change_events_pairs push_events_def)

lemma deliver_info [simp]: "b_local_info (fold (deliver p c) es b) = b_local_info b"
proof (induction es arbitrary: b)
  case (Cons e es) then show ?case by (cases e) (simp_all add: on_connection_handler_event_def)
qed simp

lemma deliver_events:
  "b_events (fold (deliver p c) es b) = b_events b @
     concat (map (\<lambda>e. case e of NotifyBehaviour x \<Rightarrow> [GenerateEvent (handler_report p x)]
                     | OutboundSubstreamRequest _ \<Rightarrow> []) es)"
proof (induction es arbitrary: b)
  case (Cons e es) then show ?case by (cases e) (simp_all add: on_connection_handler_event_def)
qed simp

lemma handler_ok_behaviour_event:
  "handler_ok I C inflight cap li E h \<Longrightarrow> handler_ok I C inflight cap li E (on_behaviour_event e h)"
  by (cases e) (auto simp: handler_ok_def flight_ok_def)

lemma handler_ok_step:
  assumes spec: "futures_set_spec L C inflight cap" and ok: "handler_ok I C inflight cap li E h"
    and s: "handler_step I L i h = (es, h')"
  shows "handler_ok I C inflight cap li (E \<union> conn_events [i]) h' \<and>
    (\<forall>e \<in> set es. truthful I C li (E \<union> conn_events [i]) e)"
  using step_truthful [OF spec _ s, of E] step_setup [OF s] ok
  by (simp add: handler_ok_def same_setup_def)

lemma node_order_history [simp]: "pn_history (node_order pick e n) = pn_history n"
  by (induction pick e n rule: node_order.induct) (simp_all add: Let_def)

lemma node_order_truth:
  assumes "node_truth I C inflight cap li n" "order_ok I C li (pn_history n) e"
  shows "node_truth I C inflight cap li (node_order pick e n)"
  using assms
  by (induction pick e n rule: node_order.induct)
    (auto simp: node_truth_def Let_def map_simps handler_ok_behaviour_event)

lemma deliver_orders_ok:
  assumes "\<forall>e \<in> set (b_events b). order_ok I C li H e" "\<forall>e \<in> set es. truthful I C li (events_on H p c) e"
  shows "\<forall>e \<in> set (b_events (fold (deliver p c) es b)). order_ok I C li H e"
  using assms by (auto simp: deliver_events split: ConnectionHandlerEvent.splits dest!: handler_report_ok)

lemma node_handler_truth:
  assumes "futures_set_spec L C inflight cap" "node_truth I C inflight cap li n"
  shows "node_truth I C inflight cap li (node_handler I L p c i n)"
proof (cases "HashMap_get (pn_handlers n) (p, c)")
  case (Some h)
  obtain es h' where s: "handler_step I L i h = (es, h')" by fastforce
  let ?H = "pn_history n @ map (Pair (p, c)) (connection_events i)"
  have "handler_ok I C inflight cap li (events_on (pn_history n) p c) h" using assms(2) Some by (simp add: node_truth_def)
  from handler_ok_step [OF assms(1) this s]
  have h': "handler_ok I C inflight cap li (events_on ?H p c) h'"
    and es: "\<forall>e \<in> set es. truthful I C li (events_on ?H p c) e" by (simp_all add: events_on_append)
  have "\<forall>e \<in> set (b_events (pn_behaviour n)). order_ok I C li ?H e"
    using assms(2) by (simp add: node_truth_def order_ok_mono)
  note orders = deliver_orders_ok [OF this es]
  from assms(2) Some s h' orders show ?thesis
    by (auto simp: node_handler_def node_truth_def map_simps report_ok_mono events_on_append)
qed (use assms in \<open>simp add: node_handler_def\<close>)

lemma handler_ok_new:
  assumes "futures_set_spec L C inflight cap"
  shows "handler_ok I C inflight cap li E (Handler_new L ivl p addrs li nm pnm)"
  using flight_ok_mono [OF flight_ok_new [OF assms]] by (simp add: handler_ok_def Handler_new_def)

lemma node_run_truth:
  assumes run: "node_run I L B config info n" and spec: "futures_set_spec L C inflight cap"
  shows "node_truth I C inflight cap info n"
  using run
proof (induction rule: node_run.induct)
  case (run_connect n c inbound p endpoint)
  then show ?case
    by (auto simp: node_connect_def node_truth_def map_simps swarm_event_orders_ok handler_ok_new [OF spec]
        handle_established_inbound_connection_def handle_established_outbound_connection_def)
next
  case (run_poll n pick)
  then show ?case
    by (auto simp: node_poll_def Behaviour_poll_def node_truth_def [of _ _ _ _ _ n] split: list.split
        intro!: node_order_truth) (auto simp: node_truth_def)
next
  case (run_connection n p c ce)
  then show ?case by (simp add: node_handler_truth [OF spec])
next
  case (run_handler_poll n p c cx)
  then show ?case by (simp add: node_handler_truth [OF spec])
qed (auto simp: node_new_def Behaviour_new_def node_close_def node_event_def
    node_push_def push_append node_truth_def map_simps swarm_event_orders_ok split: if_splits)

section \<open>Addresses\<close>

text \<open>
  The contract of the address books of \<open>libp2p\<close>: they say whether an event changed the addresses,
  and the opening of a connection changes none.
\<close>

definition books_spec :: "('la, 'ea, 'o) BehaviourLib \<Rightarrow> bool" where
  "books_spec B \<longleftrightarrow>
     (\<forall>e la la'. ListenAddresses_on_swarm_event B e la = (False, la') \<longrightarrow>
        set (ListenAddresses_iter B la') = set (ListenAddresses_iter B la)) \<and>
     (\<forall>e ea ea'. ExternalAddresses_on_swarm_event B e ea = (False, ea') \<longrightarrow>
        set (ExternalAddresses_iter B ea') = set (ExternalAddresses_iter B ea)) \<and>
     (\<forall>p c endpoint la. \<not> fst (ListenAddresses_on_swarm_event B (ConnectionEstablished p c endpoint) la)) \<and>
     (\<forall>p c endpoint ea. \<not> fst (ExternalAddresses_on_swarm_event B (ConnectionEstablished p c endpoint) ea))"

text \<open>The addresses that a handler will know when the orders queued for it have been carried out.\<close>

fun told :: "PeerId \<Rightarrow> ConnectionId \<Rightarrow> ('info, 'push) ToSwarm \<Rightarrow> Multiaddr set \<Rightarrow> Multiaddr set" where
  "told p c (NotifyHandler p' (One c') (AddressesChanged A)) s = (if p' = p \<and> c' = c then A else s)"
| "told p c _ s = s"

fun order_form :: "ConnectionId list \<Rightarrow> ('info, 'push) ToSwarm \<Rightarrow> bool" where
  "order_form used (NotifyHandler p (One c) e) \<longleftrightarrow> c \<in> set used"
| "order_form used (NotifyHandler p Any e) \<longleftrightarrow> e = Push"
| "order_form used (GenerateEvent _) \<longleftrightarrow> True"

definition node_addresses where
  "node_addresses B n \<longleftrightarrow>
     (\<forall>e \<in> set (b_events (pn_behaviour n)). order_form (pn_used n) e) \<and>
     (\<forall>p c h. HashMap_get (pn_handlers n) (p, c) = Some h \<longrightarrow>
        fold (told p c) (b_events (pn_behaviour n)) (h_external_addresses h) = all_addresses B (pn_behaviour n))"

lemma order_form_mono: "order_form us e \<Longrightarrow> order_form (c # us) e"
  by (induction us e rule: order_form.induct) auto

lemma told_unused: "\<forall>e \<in> set es. order_form used e \<Longrightarrow> c \<notin> set used \<Longrightarrow> fold (told p c) es s = s"
proof (induction es)
  case (Cons e es)
  have "told p c e s = s" using Cons.prems by (induction p c e s rule: told.induct) auto
  with Cons show ?case by simp
qed simp

lemma told_push_events: "fold (told p c) (push_events b) s = s"
  unfolding push_events_def fold_map by (rule fold_invariant [where Q = "\<lambda>_. True"]) auto

lemma told_pushes: "fold (told p c) (map (\<lambda>p. NotifyHandler p Any Push) ps) s = s"
  unfolding fold_map by (rule fold_invariant [where Q = "\<lambda>_. True"]) auto

lemma told_same: "\<forall>p' \<in> set ks. f p' = NotifyHandler (fst p') (One (snd p')) (AddressesChanged A) \<Longrightarrow>
  fold (told p c) (map f ks) s = (if (p, c) \<in> set ks then A else s)"
  by (induction ks arbitrary: s) auto

lemma told_change_events:
  "fold (told p c) (change_events B b) s =
     (if (p, c) \<in> set (connection_pairs (b_connected b)) then all_addresses B b else s)"
  unfolding change_events_pairs by (rule told_same) auto

lemma swarm_event_addresses:
  "all_addresses B (on_swarm_event B e b) =
     set (ListenAddresses_iter B (snd (ListenAddresses_on_swarm_event B e (b_listen_addresses b)))) \<union>
     set (ExternalAddresses_iter B (snd (ExternalAddresses_on_swarm_event B e (b_external_addresses b))))"
  by (cases e) (auto simp: all_addresses_def on_swarm_event_def on_connection_established_def Let_def split: prod.split)

lemma swarm_event_told:
  assumes B: "books_spec B" and now: "fold (told p c) (b_events b) s = all_addresses B b"
    and live: "(p, c) \<in> set (connection_pairs (b_connected b))"
  shows "fold (told p c) (b_events (on_swarm_event B e b)) s = all_addresses B (on_swarm_event B e b)"
proof -
  obtain lc la where l: "ListenAddresses_on_swarm_event B e (b_listen_addresses b) = (lc, la)" by fastforce
  obtain ec ea where x: "ExternalAddresses_on_swarm_event B e (b_external_addresses b) = (ec, ea)" by fastforce
  have "\<not> lc \<Longrightarrow> \<not> ec \<Longrightarrow>
      set (ListenAddresses_iter B la) \<union> set (ExternalAddresses_iter B ea) = all_addresses B b"
    using B l x by (auto simp: books_spec_def all_addresses_def)
  with now live show ?thesis
    by (auto simp: swarm_event_events [OF l x] swarm_event_addresses l x told_change_events told_push_events)
      (auto simp: all_addresses_def)
qed

lemma swarm_event_form:
  assumes "\<forall>e \<in> set (b_events b). order_form used e"
    and "\<And>p c. (p, c) \<in> set (connection_pairs (b_connected b)) \<Longrightarrow> c \<in> set used"
  shows "\<forall>e \<in> set (b_events (on_swarm_event B ev b)). order_form used e"
  using assms
  by (cases "ListenAddresses_on_swarm_event B ev (b_listen_addresses b)";
      cases "ExternalAddresses_on_swarm_event B ev (b_external_addresses b)")
    (auto simp: swarm_event_events change_events_pairs push_events_def)

text \<open>The connections the behaviour knows are those with a handler.\<close>

lemma node_connection_pairs:
  assumes "node_run I L B config info n"
  shows "(p, c) \<in> set (connection_pairs (b_connected (pn_behaviour n))) \<longleftrightarrow>
    HashMap_get (pn_handlers n) (p, c) \<noteq> None"
proof -
  obtain l where l: "swarm_run B (Behaviour_new B config info) l (pn_behaviour n)"
    "map fst l = map fst (pn_handlers n)" using node_run_swarm [OF assms] by blast
  from connection_pairs_live [OF swarm_run_connected [OF l(1)], of p c] live_key [OF l(2), of "(p, c)"]
  show ?thesis by simp
qed

lemma node_pairs_used:
  assumes "node_run I L B config info n" "(p, c) \<in> set (connection_pairs (b_connected (pn_behaviour n)))"
  shows "c \<in> set (pn_used n)"
  using node_run_used [OF assms(1), of p c] node_connection_pairs [OF assms(1), of p c] assms(2)
  by (simp add: map_of_eq_None_iff)

lemma step_addresses:
  assumes "handler_step I L i h = (es, h')" "\<And>e. i \<noteq> In_behaviour e"
  shows "h_external_addresses h' = h_external_addresses h"
proof (cases i)
  case (In_connection c)
  have "h_external_addresses (on_connection_event I L c h) = h_external_addresses h"
  proof (induction I L c h rule: on_connection_event.induct)
    case (1 I L x h) then show ?case by (cases x) (auto split: option.splits)
  next
    case (2 I L x h) then show ?case by (cases x) (auto simp: Let_def split: option.splits)
  qed (auto simp: Let_def split: prod.split)
  with In_connection assms(1) show ?thesis by auto
next
  case (In_poll cx)
  have ps: "h_external_addresses (snd (poll_streams I r h)) = h_external_addresses h" for r h
    by (induction I r h rule: poll_streams.induct)
      (auto simp: handle_incoming_info_def Let_def split: option.split)
  have h': "h' = snd (Handler_poll I L cx h)" using In_poll assms(1) by (auto split: prod.splits Poll.splits)
  show ?thesis
    by (cases rule: Handler_poll_cases [where h = h and I = I and L = L and cx = cx])
      (simp_all add: h' ps)
qed (use assms in auto)

lemma deliver_addresses [simp]: "all_addresses B (fold (deliver p c) es b) = all_addresses B b"
proof (induction es arbitrary: b)
  case (Cons e es)
  have "all_addresses B (deliver p c e b) = all_addresses B b"
    by (cases e) (simp_all add: on_connection_handler_event_def all_addresses_def)
  with Cons show ?case by simp
qed simp

lemma deliver_told [simp]:
  "fold (told p c) (b_events (fold (deliver p' c') es b)) s = fold (told p c) (b_events b) s"
proof (induction es arbitrary: b)
  case (Cons e es) then show ?case by (cases e) (simp_all add: on_connection_handler_event_def)
qed simp

lemma deliver_form:
  "\<forall>e \<in> set (b_events b). order_form used e \<Longrightarrow>
     \<forall>e \<in> set (b_events (fold (deliver p c) es b)). order_form used e"
  by (auto simp: deliver_events split: ConnectionHandlerEvent.splits)

lemma node_handler_addresses:
  assumes "node_addresses B n" "\<And>e. i \<noteq> In_behaviour e"
  shows "node_addresses B (node_handler I L p c i n)"
proof (cases "HashMap_get (pn_handlers n) (p, c)")
  case (Some h)
  obtain es h' where s: "handler_step I L i h = (es, h')" by fastforce
  have "h_external_addresses h' = h_external_addresses h" using step_addresses [OF s assms(2)] by simp
  with assms(1) Some s show ?thesis
    by (auto simp: node_handler_def node_addresses_def map_simps deliver_form simp del: split_paired_All)
qed (use assms in \<open>simp add: node_handler_def\<close>)

lemma told_order:
  assumes "order_form used e" "HashMap_get (pn_handlers (node_order pick e n)) (p, c) = Some h'"
  obtains h where "HashMap_get (pn_handlers n) (p, c) = Some h"
    "h_external_addresses h' = told p c e (h_external_addresses h)"
proof -
  have "\<exists>h. HashMap_get (pn_handlers n) (p, c) = Some h \<and>
      h_external_addresses h' = told p c e (h_external_addresses h)"
    using assms
  proof (induction pick e n rule: node_order.induct)
    case (2 pick p' c' e n)
    then show ?case by (cases e) (auto simp: map_simps split: if_splits)
  qed (auto simp: map_simps Let_def split: if_splits)
  then show ?thesis using that by blast
qed

lemma node_poll_addresses:
  assumes "node_addresses B n"
  shows "node_addresses B (node_poll pick n)"
proof (cases "b_events (pn_behaviour n)")
  case Nil
  with assms show ?thesis by (simp add: node_poll_def Behaviour_poll_def)
next
  case (Cons e es)
  let ?n = "node_order pick e (n\<lparr>pn_behaviour := pn_behaviour n\<lparr>b_events := es\<rparr>\<rparr>)"
  have form: "order_form (pn_used n) e" "\<forall>e \<in> set es. order_form (pn_used n) e"
    using assms Cons by (simp_all add: node_addresses_def)
  have "fold (told p c) es (h_external_addresses h') = all_addresses B (pn_behaviour n)"
    if h': "HashMap_get (pn_handlers ?n) (p, c) = Some h'" for p c h'
  proof -
    obtain h where "HashMap_get (pn_handlers n) (p, c) = Some h"
      "h_external_addresses h' = told p c e (h_external_addresses h)"
      using told_order [OF form(1) h'] by auto
    with assms Cons show ?thesis by (auto simp: node_addresses_def)
  qed
  with form have "node_addresses B ?n" by (simp add: node_addresses_def all_addresses_def)
  with Cons show ?thesis by (simp add: node_poll_def Behaviour_poll_def)
qed

lemma node_swarm_told:
  assumes run: "node_run I L B config info n" and B: "books_spec B" and ok: "node_addresses B n"
    and h: "HashMap_get (pn_handlers n) (p, c) = Some h"
  shows "fold (told p c) (b_events (on_swarm_event B e (pn_behaviour n))) (h_external_addresses h) =
    all_addresses B (on_swarm_event B e (pn_behaviour n))"
proof (rule swarm_event_told [OF B])
  show "(p, c) \<in> set (connection_pairs (b_connected (pn_behaviour n)))"
    using node_connection_pairs [OF run, of p c] h by simp
qed (use ok h in \<open>simp add: node_addresses_def\<close>)

lemma node_connect_addresses:
  assumes run: "node_run I L B config info n" and B: "books_spec B" and ok: "node_addresses B n"
    and c: "c \<notin> set (pn_used n)"
  shows "node_addresses B (node_connect L B inbound p c endpoint n)"
proof -
  let ?e = "ConnectionEstablished p c endpoint" and ?b = "pn_behaviour n"
  obtain la where l: "ListenAddresses_on_swarm_event B ?e (b_listen_addresses ?b) = (False, la)"
    using B unfolding books_spec_def by (metis (full_types) eq_fst_iff)
  obtain ea where x: "ExternalAddresses_on_swarm_event B ?e (b_external_addresses ?b) = (False, ea)"
    using B unfolding books_spec_def by (metis (full_types) eq_fst_iff)
  have ev: "b_events (on_swarm_event B ?e ?b) = b_events ?b" by (simp add: swarm_event_events [OF l x])
  have form: "\<forall>e \<in> set (b_events ?b). order_form (pn_used n) e" using ok by (simp add: node_addresses_def)
  have addr: "all_addresses B (on_swarm_event B ?e ?b) = all_addresses B ?b"
    using B l x by (simp add: swarm_event_addresses) (simp add: books_spec_def all_addresses_def)
  have "fold (told p' c') (b_events ?b) (h_external_addresses h) = all_addresses B ?b"
    if "HashMap_get (pn_handlers n) (p', c') = Some h" for p' c' h
    using ok that by (simp add: node_addresses_def)
  moreover have "fold (told p c) (b_events ?b) s = s" for s by (rule told_unused [OF form c])
  ultimately show ?thesis
    using form
    by (auto simp: node_connect_def node_addresses_def order_form_mono map_simps ev addr Handler_new_def
        handle_established_inbound_connection_def handle_established_outbound_connection_def)
qed

lemma node_run_addresses:
  assumes run: "node_run I L B config info n" and B: "books_spec B"
  shows "node_addresses B n"
  using run
proof (induction rule: node_run.induct)
  case (run_close n p c r)
  have "\<forall>e \<in> set (b_events (pn_behaviour n)). order_form (pn_used n) e"
    using run_close.IH by (simp add: node_addresses_def)
  note form = swarm_event_form [OF this node_pairs_used [OF run_close.hyps(1)], where B = B]
  note told = node_swarm_told [OF run_close.hyps(1) B run_close.IH]
  show ?case unfolding node_addresses_def using form told by (auto simp: node_close_def map_simps split: if_splits)
next
  case (run_event n ev)
  have "\<forall>e \<in> set (b_events (pn_behaviour n)). order_form (pn_used n) e"
    using run_event.IH by (simp add: node_addresses_def)
  note form = swarm_event_form [OF this node_pairs_used [OF run_event.hyps(1)], where B = B]
  note told = node_swarm_told [OF run_event.hyps(1) B run_event.IH]
  show ?case unfolding node_addresses_def using form told by (simp add: node_event_def)
next
  case (run_push n ps)
  then show ?case
    by (simp add: node_push_def node_addresses_def push_append told_pushes ball_Un) (simp add: all_addresses_def)
qed (simp_all add: node_connect_addresses [OF _ B] node_handler_addresses node_poll_addresses,
    simp add: node_new_def node_addresses_def Behaviour_new_def)

section \<open>Carrying out the queue\<close>

fun generated :: "('info, 'push) ToSwarm list \<Rightarrow> ('info, 'push) Behaviour_Event list" where
  "generated [] = []"
| "generated (GenerateEvent e # es) = e # generated es"
| "generated (NotifyHandler _ _ _ # es) = generated es"

lemma node_order_reports: "pn_reports (node_order pick e n) = pn_reports n @ generated [e]"
  by (induction pick e n rule: node_order.induct) (simp_all add: Let_def)

lemma generated_Cons: "generated (e # es) = generated [e] @ generated es"
  by (cases e) simp_all

lemma node_polls_run: "node_run I L B config info n \<Longrightarrow> node_run I L B config info (fold node_poll picks n)"
  by (induction picks arbitrary: n) (simp_all add: run_poll)

lemma node_polls_drain:
  assumes "length picks = length (b_events (pn_behaviour n))"
  shows "pn_behaviour (fold node_poll picks n) = (pn_behaviour n)\<lparr>b_events := []\<rparr> \<and>
    pn_reports (fold node_poll picks n) = pn_reports n @ generated (b_events (pn_behaviour n))"
  using assms
proof (induction picks arbitrary: n)
  case (Cons pick picks)
  then obtain e es where ev: "b_events (pn_behaviour n) = e # es" by (cases "b_events (pn_behaviour n)") auto
  have b: "pn_behaviour (node_poll pick n) = (pn_behaviour n)\<lparr>b_events := es\<rparr>"
    by (simp add: node_poll_behaviour Behaviour_poll_def ev)
  have r: "pn_reports (node_poll pick n) = pn_reports n @ generated [e]"
    by (simp add: node_poll_def Behaviour_poll_def ev node_order_reports)
  from Cons.IH [of "node_poll pick n"] Cons.prems ev show ?case
    by (simp add: b r generated_Cons [of e es])
qed simp

lemma node_polls_history: "pn_history (fold node_poll picks n) = pn_history n"
proof (induction picks arbitrary: n)
  case (Cons pick picks)
  have "pn_history (node_poll pick n) = pn_history n"
    by (auto simp: node_poll_def split: prod.split Poll.split)
  with Cons show ?case by simp
qed simp

lemma node_polls_keys: "map fst (pn_handlers (fold node_poll picks n)) = map fst (pn_handlers n)"
  by (induction picks arbitrary: n) simp_all

section \<open>A concrete node\<close>

lemma demo_books_spec: "books_spec demo_books"
  by (auto simp: books_spec_def demo_books_def split: FromSwarm.splits)

definition demo_config :: Config where
  "demo_config = with_push_listen_addr_updates True (Config_new ''v'' [] ''/a'' ''/b'')"

type_synonym demo_node =
  "(u8 list, u8 list, Multiaddr list, unit, usize \<times> demo_future list, unit, nat, io_stream, nat) PeerNode"

text \<open>A node with two connections that gets a new address, identifies one of its peers and closes
  the other connection.\<close>

definition demo_node0 :: demo_node where
  "demo_node0 =
     node_handler demo_Info demo_lib [1] 1 (In_poll (False, True))
       (node_handler demo_Info demo_lib [1] 1 (In_connection (FullyNegotiatedOutbound (Left (demo_stream [5]))))
         (node_event demo_books [7]
           (node_connect demo_lib demo_books False [2] 2 (Listener [0] [20])
             (node_connect demo_lib demo_books True [1] 1 (Dialer [10]) (node_new demo_books demo_config [9])))))"

definition demo_node :: demo_node where
  "demo_node = node_close demo_books [2] 2 0 demo_node0"

lemma demo_node0_run: "node_run demo_Info demo_lib demo_books demo_config [9] demo_node0"
  unfolding demo_node0_def
  by (intro run_handler_poll run_connection run_event run_connect run_new) code_simp+

lemma demo_node_run: "node_run demo_Info demo_lib demo_books demo_config [9] demo_node"
  unfolding demo_node_def
  by (rule run_close [OF demo_node0_run]) code_simp+

lemma demo_node_queue:
  "length (b_events (pn_behaviour demo_node)) = 5" 
  "generated (b_events (pn_behaviour demo_node)) = [Received [1] [5]]"
  "all_addresses demo_books (pn_behaviour demo_node) = {[7]}"
  "pn_reports demo_node = []"
  "pn_history demo_node = [(([1], 1), FullyNegotiatedOutbound (Left (demo_stream [5])))]"
  by code_simp+

lemma heard_nothing: "\<not> heard I C {} info"
proof
  assume "heard I C {} info"
  then show False by (induction rule: heard.induct) simp_all
qed

section \<open>Properties\<close>

text \<open>C12. In every run of a node, with any number of connections to any peers, the events that the
  node reports are truthful about the peer they name. Information received from a peer was read from
  a stream that was negotiated for a request on a connection with that very peer, or merged from
  pushes that this peer sent on the same connection. Information reported as pushed to a peer is the
  local information of the behaviour, written without an error to a push stream of a connection with
  that peer, and information reported as sent was written to a stream that this peer opened.\<close>

theorem node_reports_truthful:
  assumes "futures_set_spec L C inflight cap" "node_run I L B config info n" "e \<in> set (pn_reports n)"
  shows "(\<forall>p i. e = Received p i \<longrightarrow> (\<exists>c. heard I C (events_on (pn_history n) p c) i)) \<and>
    (\<forall>p i. e = Pushed p i \<longrightarrow> i = info_into_push I info \<and>
      (\<exists>c io. FullyNegotiatedOutbound (Right io) \<in> events_on (pn_history n) p c \<and>
        fst (codec_write_push_info C io i) = Ok ())) \<and>
    (\<forall>p. e = Sent p \<longrightarrow>
      (\<exists>c io. FullyNegotiatedInbound (Left io) \<in> events_on (pn_history n) p c \<and>
        fst (codec_write_info C io info) = Ok ()))"
  using node_run_truth [OF assms(2,1)] assms(3) by (auto simp: node_truth_def)

text \<open>The node of the example identified the peer \<open>[1]\<close> and heard nothing from the peer \<open>[2]\<close>.\<close>

theorem node_reports_truthful_witness:
  "let n = fold node_poll (replicate 5 hd) demo_node in
   pn_reports n = [Received [1] [5]] \<and>
   (\<exists>c. heard demo_Info demo_Codec (events_on (pn_history n) [1] c) [5]) \<and>
   \<not> (\<exists>c. heard demo_Info demo_Codec (events_on (pn_history n) [2] c) [5])"
proof -
  let ?n = "fold node_poll (replicate 5 hd) demo_node"
  have reports: "pn_reports ?n = [Received [1] [5]]"
    using node_polls_drain [of "replicate 5 hd" demo_node] by (simp add: demo_node_queue)
  then have "Received [1] [5] \<in> set (pn_reports ?n)" by simp
  from node_reports_truthful [OF demo_lib_spec node_polls_run [OF demo_node_run] this]
  have heard: "\<exists>c. heard demo_Info demo_Codec (events_on (pn_history ?n) [1] c) [5]" by blast
  have "events_on (pn_history ?n) [2] c = {}" for c
    unfolding node_polls_history demo_node_queue(5) by (simp add: events_on_def)
  then have "\<not> (\<exists>c. heard demo_Info demo_Codec (events_on (pn_history ?n) [2] c) [5])"
    by (simp add: heard_nothing)
  with reports heard show ?thesis by (simp add: Let_def)
qed

text \<open>C9. The addresses of a node reach its handlers: in every run of a node, polling the behaviour
  as often as it has queued orders empties the queue, reports the queued events in order, and
  leaves every handler with the addresses that the node has, the ones opened or notified late
  included.\<close>

theorem addresses_converge:
  assumes "books_spec B" "node_run I L B config info n" "length picks = length (b_events (pn_behaviour n))"
  shows "b_events (pn_behaviour (fold node_poll picks n)) = [] \<and>
    pn_reports (fold node_poll picks n) = pn_reports n @ generated (b_events (pn_behaviour n)) \<and>
    map fst (pn_handlers (fold node_poll picks n)) = map fst (pn_handlers n) \<and>
    (\<forall>k h. HashMap_get (pn_handlers (fold node_poll picks n)) k = Some h \<longrightarrow>
      h_external_addresses h = all_addresses B (pn_behaviour n))"
proof -
  let ?n = "fold node_poll picks n"
  have d: "pn_behaviour ?n = (pn_behaviour n)\<lparr>b_events := []\<rparr>"
    "pn_reports ?n = pn_reports n @ generated (b_events (pn_behaviour n))"
    using node_polls_drain [OF assms(3)] by simp_all
  have "node_addresses B ?n" by (rule node_run_addresses [OF node_polls_run [OF assms(2)] assms(1)])
  with d show ?thesis by (simp add: node_addresses_def node_polls_keys all_addresses_def)
qed

theorem addresses_converge_witness:
  "h_external_addresses (the (HashMap_get (pn_handlers demo_node) ([1], 1))) = {} \<and>
   pn_reports (fold node_poll (replicate 5 hd) demo_node) = [Received [1] [5]] \<and>
   h_external_addresses (the (HashMap_get (pn_handlers (fold node_poll (replicate 5 hd) demo_node)) ([1], 1))) = {[7]}"
proof -
  let ?n = "fold node_poll (replicate 5 hd) demo_node"
  have now: "HashMap_get (pn_handlers demo_node) ([1], 1) \<noteq> None" "pn_reports demo_node = []"
    "h_external_addresses (the (HashMap_get (pn_handlers demo_node) ([1], 1))) = {}" by code_simp+
  have conv: "pn_reports ?n = [Received [1] [5]]" "map fst (pn_handlers ?n) = map fst (pn_handlers demo_node)"
    "\<forall>k h. HashMap_get (pn_handlers ?n) k = Some h \<longrightarrow> h_external_addresses h = {[7]}"
    using addresses_converge [OF demo_books_spec demo_node_run, of "replicate 5 hd"] now(2)
    by (simp_all add: demo_node_queue)
  have "HashMap_get (pn_handlers ?n) ([1], 1) \<noteq> None" using live_key [OF conv(2)] now(1) by simp
  with conv(1,3) now(3) show ?thesis by auto
qed

end
