(* ===== verification/SyncExtra.thy ===== *)
theory SyncExtra
  imports Prelude
begin

text \<open>
  The locks of \<open>util/sync-extra/src/lib.rs\<close>. A lock of the standard library holds a value and a
  poison flag, which is set when a thread panics while it holds the lock for writing; \<open>lock\<close>,
  \<open>read\<close> and \<open>write\<close> return an error on a poisoned lock and \<open>expect\<close> turns that error into a
  panic. In the code modelled here every guard is a temporary of one statement, so that a locked
  region is one step: a read returns the value, and a write is given as the function that the
  statement applies to the guarded value.
\<close>

datatype 'a outcome = Return 'a | Panic string

fun bind_outcome :: "'a outcome \<Rightarrow> ('a \<Rightarrow> 'b outcome) \<Rightarrow> 'b outcome" where
  "bind_outcome (Return x) f = f x"
| "bind_outcome (Panic msg) f = Panic msg"

fun expect :: "string \<Rightarrow> ('a, 'e) Result \<Rightarrow> 'a outcome" where
  "expect msg (Ok x) = Return x"
| "expect msg (Err e) = Panic msg"

record 'a Mutex =
  mx_poisoned :: bool
  mx_value :: 'a

record 'a RwLock =
  rw_poisoned :: bool
  rw_value :: 'a

datatype PoisonError = PoisonError

definition RwLock_new :: "'a \<Rightarrow> 'a RwLock" where
  "RwLock_new x = \<lparr>rw_poisoned = False, rw_value = x\<rparr>"

definition Mutex_lock :: "'a Mutex \<Rightarrow> ('a, PoisonError) Result" where
  "Mutex_lock m = (if mx_poisoned m then Err PoisonError else Ok (mx_value m))"

definition RwLock_lock :: "'a RwLock \<Rightarrow> ('a, PoisonError) Result" where
  "RwLock_lock l = (if rw_poisoned l then Err PoisonError else Ok (rw_value l))"

text \<open>The three methods of the extension traits.\<close>

definition lock_unwrap :: "('a \<Rightarrow> 'a) \<Rightarrow> 'a Mutex \<Rightarrow> ('a \<times> 'a Mutex) outcome" where
  "lock_unwrap f m =
     bind_outcome (expect ''lock is poisioned'' (Mutex_lock m)) (\<lambda>x. Return (x, m\<lparr>mx_value := f x\<rparr>))"

definition read_unwrap :: "'a RwLock \<Rightarrow> 'a outcome" where
  "read_unwrap l = expect ''lock is poisioned'' (RwLock_lock l)"

definition write_unwrap :: "('a \<Rightarrow> 'a) \<Rightarrow> 'a RwLock \<Rightarrow> 'a RwLock outcome" where
  "write_unwrap f l =
     bind_outcome (expect ''lock is poisioned'' (RwLock_lock l)) (\<lambda>x. Return (l\<lparr>rw_value := f x\<rparr>))"

section \<open>Shared cells\<close>

text \<open>
  An \<open>Arc<RwLock<T>>\<close> is the address of a lock in a store; cloning the \<open>Arc\<close> copies the address,
  so that all clones see the same lock. \<open>Arc_new\<close> allocates an address above all used ones. An address that was never allocated cannot be written
  in the program; the operations return a panic there.
\<close>

type_synonym Arc = nat
type_synonym 'a cells = "(Arc, 'a RwLock) HashMap"

definition Arc_new :: "'a \<Rightarrow> 'a cells \<Rightarrow> Arc \<times> 'a cells" where
  "Arc_new x st = (let a = Suc (sum_list (map fst st)) in (a, HashMap_insert a (RwLock_new x) st))"

definition Arc_read :: "Arc \<Rightarrow> 'a cells \<Rightarrow> 'a outcome" where
  "Arc_read a st =
     (case HashMap_get st a of None \<Rightarrow> Panic ''unallocated'' | Some l \<Rightarrow> read_unwrap l)"

definition Arc_write :: "Arc \<Rightarrow> ('a \<Rightarrow> 'a) \<Rightarrow> 'a cells \<Rightarrow> 'a cells outcome" where
  "Arc_write a f st =
     (case HashMap_get st a of
        None \<Rightarrow> Panic ''unallocated''
      | Some l \<Rightarrow> bind_outcome (write_unwrap f l) (\<lambda>l'. Return (HashMap_insert a l' st)))"

lemma Arc_new_fresh: "HashMap_get st (fst (Arc_new x st)) = None"
proof -
  have "k < fst (Arc_new x st)" if "k \<in> set (map fst st)" for k
    using member_le_sum_list [OF that] by (simp add: Arc_new_def Let_def)
  from this [of "fst (Arc_new x st)"] show ?thesis by (auto simp: map_of_eq_None_iff)
qed

lemma read_unwrap_cases:
  "read_unwrap l = (if rw_poisoned l then Panic ''lock is poisioned'' else Return (rw_value l))"
  by (simp add: read_unwrap_def RwLock_lock_def)

lemma write_unwrap_cases:
  "write_unwrap f l =
     (if rw_poisoned l then Panic ''lock is poisioned'' else Return (l\<lparr>rw_value := f (rw_value l)\<rparr>))"
  by (simp add: write_unwrap_def RwLock_lock_def)

text \<open>The contract of a shared cell: a write is seen by every later read of the same cell, through
  whichever clone, and by no read of another cell.\<close>

locale shared_cell =
  fixes rd :: "'p \<Rightarrow> 's \<Rightarrow> 'a outcome" and wr :: "'p \<Rightarrow> ('a \<Rightarrow> 'a) \<Rightarrow> 's \<Rightarrow> 's outcome"
  assumes read_write_same: "wr p f s = Return s' \<Longrightarrow> \<exists>x. rd p s = Return x \<and> rd p s' = Return (f x)"
    and read_write_other: "wr p f s = Return s' \<Longrightarrow> q \<noteq> p \<Longrightarrow> rd q s' = rd q s"
    and write_readable: "rd p s = Return x \<Longrightarrow> \<exists>s'. wr p f s = Return s'"
begin

lemma write_read:
  assumes "wr p f s = Return s'" "rd q s = Return x"
  shows "rd q s' = Return (if q = p then f x else x)"
  using read_write_same [OF assms(1)] read_write_other [OF assms(1), of q] assms(2) by auto

lemma write_then_write:
  assumes "rd p s = Return x"
  shows "\<exists>s1 s2. wr p f s = Return s1 \<and> wr p g s1 = Return s2 \<and> rd p s2 = Return (g (f x))"
proof -
  obtain s1 where s1: "wr p f s = Return s1" using write_readable [OF assms] by blast
  have r1: "rd p s1 = Return (f x)" using write_read [OF s1 assms] by simp
  obtain s2 where s2: "wr p g s1 = Return s2" using write_readable [OF r1] by blast
  from s1 s2 write_read [OF s2 r1] show ?thesis by auto
qed

end

interpretation arc: shared_cell Arc_read Arc_write
proof unfold_locales
  fix p q :: Arc and f :: "'a \<Rightarrow> 'a" and s s' :: "'a cells" and x :: 'a
  { assume "Arc_write p f s = Return s'"
    then obtain l where l: "HashMap_get s p = Some l" "\<not> rw_poisoned l"
      "s' = HashMap_insert p (l\<lparr>rw_value := f (rw_value l)\<rparr>) s"
      by (auto simp: Arc_write_def write_unwrap_cases split: option.splits if_splits)
    then show "\<exists>x. Arc_read p s = Return x \<and> Arc_read p s' = Return (f x)"
      by (simp add: Arc_read_def read_unwrap_cases map_simps)
    show "Arc_read q s' = Arc_read q s" if "q \<noteq> p"
      using l that by (simp add: Arc_read_def map_simps) }
  assume "Arc_read p s = Return x"
  then show "\<exists>s'. Arc_write p f s = Return s'"
    by (auto simp: Arc_read_def Arc_write_def read_unwrap_cases write_unwrap_cases split: option.splits if_splits)
qed

lemma Arc_new_read:
  assumes "Arc_new x st = (a, st')"
  shows "Arc_read a st' = Return x"
    and "b \<noteq> a \<Longrightarrow> Arc_read b st' = Arc_read b st"
  using assms by (auto simp: Arc_new_def Let_def Arc_read_def read_unwrap_cases RwLock_new_def map_simps)

end
