(* ===== verification/ServiceTraits.thy ===== *)
theory ServiceTraits
  imports SyncExtra
begin

text \<open>
  The traits of \<open>blocknet/src/service.rs\<close>, each as the record of its methods. The state that the
  methods share with other tasks is explicit: \<open>'st\<close> for cells behind locks, which a poisoned lock may
  make unreadable, and \<open>'w\<close> for channels. A future is the value it resolves to; a stream is a value
  of a type \<open>'strm\<close> of its own. \<open>NotifyService\<close> and \<open>RequestService\<close> have no implementation in the
  repository.
\<close>

record ('st, 's, 'p, 'i) ServiceT =
  svc_local_info :: "'st \<Rightarrow> 's \<Rightarrow> 'i outcome"
  svc_set_local_info :: "'s \<Rightarrow> 'i \<Rightarrow> 'st \<Rightarrow> 'st outcome"
  svc_peers :: "'st \<Rightarrow> 's \<Rightarrow> ('p \<times> 'i) list outcome"

record ('ev, 'origin, 'v) EventT =
  evt_origin :: "'ev \<Rightarrow> 'origin"
  evt_value :: "'ev \<Rightarrow> 'v"
  evt_into_value :: "'ev \<Rightarrow> 'v"

record ('m, 'topic) MessageT =
  message_topic :: "'m \<Rightarrow> 'topic"

record ('st, 's, 'p, 'i, 'ev, 'm, 'topic, 'strm, 'e, 'w) BroadcastServiceT =
  bcs_service :: "('st, 's, 'p, 'i) ServiceT"
  bcs_event :: "('ev, 'p, 'm) EventT"
  bcs_listen :: "'s \<Rightarrow> 'topic \<Rightarrow> 'w \<Rightarrow> ('strm, 'e) Result \<times> 'w"
  bcs_broadcast :: "'s \<Rightarrow> 'm \<Rightarrow> 'w \<Rightarrow> (unit, 'e) Result \<times> 'w"

record ('st, 's, 'p, 'i, 'ev, 'n, 'strm, 'e, 'w) NotifyServiceT =
  nts_service :: "('st, 's, 'p, 'i) ServiceT"
  nts_event :: "('ev, 'p, 'n) EventT"
  nts_listen :: "'s \<Rightarrow> 'w \<Rightarrow> ('strm, 'e) Result \<times> 'w"
  nts_notify :: "'s \<Rightarrow> 'p \<Rightarrow> 'n \<Rightarrow> 'w \<Rightarrow> (unit, 'e) Result \<times> 'w"

text \<open>\<open>trait Request\<close> only names the type \<open>'resp\<close> of the response to a request \<open>'req\<close>.\<close>

record ('st, 's, 'p, 'i, 'ev, 'req, 'resp, 'chan, 'e, 'w) RequestServiceT =
  rqs_service :: "('st, 's, 'p, 'i) ServiceT"
  rqs_event :: "('ev, 'p, 'req) EventT"
  rqs_listen :: "'s \<Rightarrow> 'w \<Rightarrow> ('chan \<times> 'ev, 'e) Result \<times> 'w"
  rqs_request :: "'s \<Rightarrow> 'p \<Rightarrow> 'req \<Rightarrow> 'w \<Rightarrow> ('resp, 'e) Result \<times> 'w"
  rqs_respond :: "'s \<Rightarrow> 'chan \<Rightarrow> 'resp \<Rightarrow> 'w \<Rightarrow> (unit, 'e) Result \<times> 'w"

section \<open>The contract of a service\<close>

text \<open>Setting the local information several times.\<close>

primrec set_seq :: "('st, 's, 'p, 'i) ServiceT \<Rightarrow> 's \<Rightarrow> 'i list \<Rightarrow> 'st \<Rightarrow> 'st outcome" where
  "set_seq D s [] st = Return st"
| "set_seq D s (i # is) st = bind_outcome (svc_set_local_info D s i st) (set_seq D s is)"

text \<open>The contract of \<open>trait Service\<close>: setting the local information succeeds whenever it can be
  read, is seen by every service that shares it, and changes nothing else.\<close>

locale service_interface =
  fixes D :: "('st, 's, 'p, 'i) ServiceT" and shares :: "'s \<Rightarrow> 's \<Rightarrow> bool"
  assumes set_get: "svc_local_info D st s = Return x \<Longrightarrow>
      \<exists>st'. svc_set_local_info D s i st = Return st' \<and>
        (\<forall>s'. shares s s' \<longrightarrow> svc_local_info D st' s' = Return i) \<and>
        (\<forall>s'. \<not> shares s s' \<longrightarrow> svc_local_info D st' s' = svc_local_info D st s') \<and>
        svc_peers D st' = svc_peers D st"
    and shares_refl: "shares s s"
begin

lemma set_all_last:
  assumes "svc_local_info D st s = Return x"
  shows "\<exists>st'. set_seq D s ins st = Return st' \<and> svc_local_info D st' s = Return (last (x # ins)) \<and>
    svc_peers D st' = svc_peers D st"
  using assms
proof (induction ins arbitrary: st x)
  case (Cons i ins)
  obtain st1 where st1: "svc_set_local_info D s i st = Return st1" "svc_local_info D st1 s = Return i"
    "svc_peers D st1 = svc_peers D st"
    using set_get [OF Cons.prems, of i] shares_refl by blast
  from Cons.IH [OF st1(2)] st1 show ?case by auto
qed simp

end

end
