(* ===== verification/Worker.thy ===== *)
theory Worker
  imports ServiceTraits PeerInfoBehaviour
begin

text \<open>
  The node of \<open>blocknet/src/libp2p/mod.rs\<close>: the worker that owns the swarm and serves actions and
  network events, the service handles that applications hold, and the broadcast messages between
  them, with the dictionaries of the traits of \<open>service.rs\<close> that they implement.

  Code of other packages is a parameter: \<open>NetLib\<close> for gossipsub and for the channels between tasks,
  \<open>BuildLib\<close> for the construction of the swarm. The channels of all tasks are one value \<open>'w\<close> that
  the channel operations read and update. \<open>select!\<close> picks what a step serves, so that a step takes
  the action or the event as an argument; an \<open>await\<close> is modelled by the value it resolves to, and no
  other task changes the channels during a step. The shared cells \<open>peers\<close> and \<open>local_info\<close>
  are addresses in a store.
\<close>

section \<open>Data\<close>

definition MESSAGE_CHANNEL_BUFFER_SIZE :: usize where
  "MESSAGE_CHANNEL_BUFFER_SIZE = 16"

definition ACTION_CHANNEL_BUFFER_SIZE :: usize where
  "ACTION_CHANNEL_BUFFER_SIZE = 64"

record AnyRequest =
  areq_protocol_id :: string
  areq_serialized :: "u8 list"

record AnyResponse =
  aresp_protocol_id :: string
  aresp_serialized :: "u8 list"

record AnyMessage =
  am_topic :: string
  am_serialized :: "u8 list"

type_synonym send_error = string

datatype NetError =
    CodecError string
  | ChannelSend send_error
  | GossipsubSubscription string
  | GossipsubPublish string
  | Noise string
  | Build string
  | UnknownOriginBroadcast AnyMessage

type_synonym broadcast_item = "(PeerId \<times> AnyMessage, NetError) Result"

datatype 's ActionItem =
    BroadcastSend AnyMessage
  | BroadcastListen 's string

record 'i PeerFullInfo =
  pfi_info :: 'i

definition PeerFullInfo_merge :: "'i PeerFullInfo \<Rightarrow> 'i PeerFullInfo \<Rightarrow> 'i PeerFullInfo" where
  "PeerFullInfo_merge self push = push"

definition PeerFullInfo_Info :: "('i PeerFullInfo, 'i PeerFullInfo) Info" where
  "PeerFullInfo_Info = \<lparr>info_merge = PeerFullInfo_merge, info_into_push = (\<lambda>i. i)\<rparr>"

record ('gs, 'kad, 'idf, 'i, 'la, 'ea, 'mdns, 'rr) NodeBehaviour =
  n_gossipsub :: 'gs
  n_kademlia :: 'kad
  n_identify :: 'idf
  n_peer_info :: "('i PeerFullInfo, 'i PeerFullInfo, 'la, 'ea) Behaviour"
  n_mdns :: 'mdns
  n_request_response :: 'rr

record ('sw, 'h, 's, 'ar, 'as) Worker =
  w_swarm :: 'sw
  w_peers :: Arc
  w_local_info :: Arc
  w_broadcast_listen_senders :: "('h, string \<times> 's list) HashMap"
  w_action_receiver :: 'ar
  w_action_sender :: 'as

record 'as Service =
  s_peers :: Arc
  s_local_info :: Arc
  s_action_sender :: 'as

record 'v Net_Event =
  ev_origin :: PeerId
  ev_value :: 'v

text \<open>The cells that the worker and its services share.\<close>

record 'i cell_store =
  st_peers :: "(PeerId, 'i PeerFullInfo) HashMap cells"
  st_info :: "'i PeerFullInfo cells"

section \<open>Libraries\<close>

record ('gs, 'h, 's, 'r, 'as, 'ar, 'w) NetLib =
  IdentTopic_hash :: "string \<Rightarrow> 'h"
  gossipsub_publish :: "string \<Rightarrow> u8 list \<Rightarrow> 'gs \<Rightarrow> (unit, string) Result \<times> 'gs"
  gossipsub_subscribe :: "string \<Rightarrow> 'gs \<Rightarrow> (bool, string) Result \<times> 'gs"
  msg_channel :: "usize \<Rightarrow> 'w \<Rightarrow> ('s \<times> 'r) \<times> 'w"
  msg_is_closed :: "'w \<Rightarrow> 's \<Rightarrow> bool"
  msg_send :: "'s \<Rightarrow> broadcast_item \<Rightarrow> 'w \<Rightarrow> (unit, send_error) Result \<times> 'w"
  action_channel :: "usize \<Rightarrow> 'w \<Rightarrow> ('as \<times> 'ar) \<times> 'w"
  action_send :: "'as \<Rightarrow> 's ActionItem \<Rightarrow> 'w \<Rightarrow> (unit, send_error) Result \<times> 'w"

record ('gs, 'kad, 'idf, 'la, 'ea, 'o, 'mdns, 'rr) BuildLib =
  new_identity_public_key :: "u8 list"
  with_tcp :: "(unit, string) Result"
  from_public_key :: "u8 list \<Rightarrow> PeerId"
  gossipsub_new :: "u8 list \<Rightarrow> ('gs, string) Result"
  kad_new :: "PeerId \<Rightarrow> 'kad"
  identify_new :: "string \<Rightarrow> u8 list \<Rightarrow> 'idf"
  mdns_new :: "PeerId \<Rightarrow> ('mdns, string) Result"
  request_response_new :: "StreamProtocol \<Rightarrow> 'rr"
  address_books :: "('la, 'ea, 'o) BehaviourLib"

section \<open>The worker\<close>

definition build_behaviour ::
  "('gs, 'kad, 'idf, 'la, 'ea, 'o, 'mdns, 'rr) BuildLib \<Rightarrow> 'i \<Rightarrow> u8 list \<Rightarrow>
     (('gs, 'kad, 'idf, 'i, 'la, 'ea, 'mdns, 'rr) NodeBehaviour, string) Result" where
  "build_behaviour BL local_info key =
     (let peer_id = from_public_key BL key in
      and_then (gossipsub_new BL key) (\<lambda>gossipsub.
      let kademlia = kad_new BL peer_id;
          identify = identify_new BL ''/blocknet/v0.1'' key;
          peer_info = Behaviour_new (address_books BL)
            (Config_new ''/blocknet/v0.1'' key ''/blocknet/peer_info/v0.1'' ''/blocknet/peer_info/push/v0.1'')
            \<lparr>pfi_info = local_info\<rparr>
      in and_then (mdns_new BL peer_id) (\<lambda>mdns.
         Ok \<lparr>n_gossipsub = gossipsub, n_kademlia = kademlia, n_identify = identify,
             n_peer_info = peer_info, n_mdns = mdns,
             n_request_response = request_response_new BL ''/blocknet/request_response/v0.1''\<rparr>)))"

definition Worker_new ::
  "('gs, 'h, 's, 'r, 'as, 'ar, 'w) NetLib \<Rightarrow> ('gs, 'kad, 'idf, 'la, 'ea, 'o, 'mdns, 'rr) BuildLib \<Rightarrow>
     'i \<Rightarrow> 'i cell_store \<Rightarrow> 'w \<Rightarrow>
     ((('gs, 'kad, 'idf, 'i, 'la, 'ea, 'mdns, 'rr) NodeBehaviour, 'h, 's, 'ar, 'as) Worker, NetError) Result
       \<times> 'i cell_store \<times> 'w" where
  "Worker_new N BL local_info st w =
     (case and_then (map_err Noise (with_tcp BL)) (\<lambda>_.
             map_err Build (build_behaviour BL local_info (new_identity_public_key BL))) of
        Err e \<Rightarrow> (Err e, st, w)
      | Ok swarm \<Rightarrow>
          (let ((action_sender, action_receiver), w') = action_channel N ACTION_CHANNEL_BUFFER_SIZE w;
               (peers, ps) = Arc_new [] (st_peers st);
               (info, is) = Arc_new \<lparr>pfi_info = local_info\<rparr> (st_info st)
           in (Ok \<lparr>w_swarm = swarm, w_peers = peers, w_local_info = info,
                   w_broadcast_listen_senders = [], w_action_receiver = action_receiver,
                   w_action_sender = action_sender\<rparr>,
               st\<lparr>st_peers := ps, st_info := is\<rparr>, w')))"

definition Worker_service :: "('sw, 'h, 's, 'ar, 'as) Worker \<Rightarrow> 'as Service" where
  "Worker_service wk =
     \<lparr>s_peers = w_peers wk, s_local_info = w_local_info wk, s_action_sender = w_action_sender wk\<rparr>"

record 'h gossip_message =
  gm_source :: "PeerId option"
  gm_data :: "u8 list"
  gm_topic :: 'h

text \<open>What \<open>select!\<close> picked: an action, a gossipsub message, or another event of the swarm.\<close>

datatype ('s, 'h) step_event =
    Action "'s ActionItem"
  | Gossip "'h gossip_message"
  | OtherSwarmEvent

type_synonym ('gs, 'kad, 'idf, 'i, 'la, 'ea, 'mdns, 'rr, 'h, 's, 'ar, 'as) worker =
  "(('gs, 'kad, 'idf, 'i, 'la, 'ea, 'mdns, 'rr) NodeBehaviour, 'h, 's, 'ar, 'as) Worker"

text \<open>The loops over the senders of a topic; \<open>?\<close> leaves them at the first error.\<close>

fun send_all ::
  "('gs, 'h, 's, 'r, 'as, 'ar, 'w) NetLib \<Rightarrow> broadcast_item \<Rightarrow> 's list \<Rightarrow> 'w \<Rightarrow> (unit, NetError) Result \<times> 'w" where
  "send_all N item [] w = (Ok (), w)"
| "send_all N item (sender # senders) w =
     (case msg_send N sender item w of
        (Ok _, w') \<Rightarrow> send_all N item senders w'
      | (Err e, w') \<Rightarrow> (Err (ChannelSend e), w'))"

fun step_action ::
  "('gs, 'h, 's, 'r, 'as, 'ar, 'w) NetLib \<Rightarrow> 's ActionItem \<Rightarrow>
     ('gs, 'kad, 'idf, 'i, 'la, 'ea, 'mdns, 'rr, 'h, 's, 'ar, 'as) worker \<Rightarrow>
     (unit, NetError) Result \<times> ('gs, 'kad, 'idf, 'i, 'la, 'ea, 'mdns, 'rr, 'h, 's, 'ar, 'as) worker" where
  "step_action N (BroadcastSend message) wk =
     (let (r, gs) = gossipsub_publish N (am_topic message) (am_serialized message) (n_gossipsub (w_swarm wk));
          wk' = wk\<lparr>w_swarm := (w_swarm wk)\<lparr>n_gossipsub := gs\<rparr>\<rparr>
      in case r of Err e \<Rightarrow> (Err (GossipsubPublish e), wk') | Ok _ \<Rightarrow> (Ok (), wk'))"
| "step_action N (BroadcastListen sender topic) wk =
     (let (r, gs) = gossipsub_subscribe N topic (n_gossipsub (w_swarm wk));
          wk' = wk\<lparr>w_swarm := (w_swarm wk)\<lparr>n_gossipsub := gs\<rparr>\<rparr>
      in case r of
           Err e \<Rightarrow> (Err (GossipsubSubscription e), wk')
         | Ok _ \<Rightarrow> (Ok (), wk'\<lparr>w_broadcast_listen_senders :=
             HashMap_entry (IdentTopic_hash N topic) (topic, []) (\<lambda>(t, senders). (t, senders @ [sender]))
               (w_broadcast_listen_senders wk')\<rparr>))"

definition step_gossip ::
  "('gs, 'h, 's, 'r, 'as, 'ar, 'w) NetLib \<Rightarrow> 'h gossip_message \<Rightarrow>
     ('sw, 'h, 's, 'ar, 'as) Worker \<Rightarrow> 'w \<Rightarrow>
     (unit, NetError) Result \<times> ('sw, 'h, 's, 'ar, 'as) Worker \<times> 'w" where
  "step_gossip N message wk w =
     (case HashMap_get (w_broadcast_listen_senders wk) (gm_topic message) of
        None \<Rightarrow> (Ok (), wk, w)
      | Some (topic, senders) \<Rightarrow>
          (let senders' = filter (\<lambda>sender. msg_is_closed N w sender) senders;
               wk' = wk\<lparr>w_broadcast_listen_senders :=
                  HashMap_insert (gm_topic message) (topic, senders') (w_broadcast_listen_senders wk)\<rparr>;
               any_message = \<lparr>am_topic = topic, am_serialized = gm_data message\<rparr>;
               (r, w') = (case gm_source message of
                    Some source \<Rightarrow> send_all N (Ok (source, any_message)) senders' w
                  | None \<Rightarrow> send_all N (Err (UnknownOriginBroadcast any_message)) senders' w)
           in (r, wk', w')))"

fun Worker_step ::
  "('gs, 'h, 's, 'r, 'as, 'ar, 'w) NetLib \<Rightarrow> ('s, 'h) step_event \<Rightarrow>
     ('gs, 'kad, 'idf, 'i, 'la, 'ea, 'mdns, 'rr, 'h, 's, 'ar, 'as) worker \<Rightarrow> 'w \<Rightarrow>
     (unit, NetError) Result \<times> ('gs, 'kad, 'idf, 'i, 'la, 'ea, 'mdns, 'rr, 'h, 's, 'ar, 'as) worker \<times> 'w" where
  "Worker_step N (Action action) wk w = (let (r, wk') = step_action N action wk in (r, wk', w))"
| "Worker_step N (Gossip message) wk w = step_gossip N message wk w"
| "Worker_step N OtherSwarmEvent wk w = (Ok (), wk, w)"

text \<open>\<open>run\<close> over the events it is given; the result \<open>None\<close> says that it is still running when they
  are used up.\<close>

fun Worker_run ::
  "('gs, 'h, 's, 'r, 'as, 'ar, 'w) NetLib \<Rightarrow> ('s, 'h) step_event list \<Rightarrow>
     ('gs, 'kad, 'idf, 'i, 'la, 'ea, 'mdns, 'rr, 'h, 's, 'ar, 'as) worker \<Rightarrow> 'w \<Rightarrow>
     NetError option \<times> ('gs, 'kad, 'idf, 'i, 'la, 'ea, 'mdns, 'rr, 'h, 's, 'ar, 'as) worker \<times> 'w" where
  "Worker_run N [] wk w = (None, wk, w)"
| "Worker_run N (e # es) wk w =
     (case Worker_step N e wk w of
        (Ok _, wk', w') \<Rightarrow> Worker_run N es wk' w'
      | (Err err, wk', w') \<Rightarrow> (Some err, wk', w'))"

section \<open>The service\<close>

definition Service_local_info :: "'i cell_store \<Rightarrow> 'as Service \<Rightarrow> 'i outcome" where
  "Service_local_info st s = bind_outcome (Arc_read (s_local_info s) (st_info st)) (\<lambda>i. Return (pfi_info i))"

definition Service_set_local_info :: "'as Service \<Rightarrow> 'i \<Rightarrow> 'i cell_store \<Rightarrow> 'i cell_store outcome" where
  "Service_set_local_info s info st =
     bind_outcome (Arc_write (s_local_info s) (\<lambda>i. i\<lparr>pfi_info := info\<rparr>) (st_info st)) (\<lambda>is.
     Return (st\<lparr>st_info := is\<rparr>))"

definition Service_peers :: "'i cell_store \<Rightarrow> 'as Service \<Rightarrow> (PeerId \<times> 'i) list outcome" where
  "Service_peers st s =
     bind_outcome (Arc_read (s_peers s) (st_peers st)) (\<lambda>m.
     Return (map (\<lambda>(peer_id, info). (peer_id, pfi_info info)) m))"

definition Service_listen ::
  "('gs, 'h, 's, 'r, 'as, 'ar, 'w) NetLib \<Rightarrow> 'as Service \<Rightarrow> string \<Rightarrow> 'w \<Rightarrow> ('r, NetError) Result \<times> 'w" where
  "Service_listen N s topic w =
     (let ((sender, receiver), w1) = msg_channel N MESSAGE_CHANNEL_BUFFER_SIZE w;
          (r, w2) = action_send N (s_action_sender s) (BroadcastListen sender topic) w1
      in case r of Err e \<Rightarrow> (Err (ChannelSend e), w2) | Ok _ \<Rightarrow> (Ok receiver, w2))"

text \<open>What the stream that \<open>listen\<close> returns makes of an item from the channel.\<close>

definition listen_item :: "'v Serde \<Rightarrow> broadcast_item \<Rightarrow> ('v Net_Event, NetError) Result" where
  "listen_item J item =
     and_then item (\<lambda>(origin, msg).
     and_then (map_err CodecError (from_slice J (am_serialized msg))) (\<lambda>v.
     Ok \<lparr>ev_origin = origin, ev_value = v\<rparr>))"

definition broadcast_action :: "'v Serde \<Rightarrow> ('v \<Rightarrow> string) \<Rightarrow> 'v \<Rightarrow> ('s ActionItem, NetError) Result" where
  "broadcast_action J topic message =
     and_then (map_err CodecError (to_vec J message)) (\<lambda>serialized.
     Ok (BroadcastSend \<lparr>am_topic = topic message, am_serialized = serialized\<rparr>))"

definition Service_broadcast ::
  "('gs, 'h, 's, 'r, 'as, 'ar, 'w) NetLib \<Rightarrow> 'v Serde \<Rightarrow> ('v \<Rightarrow> string) \<Rightarrow> 'as Service \<Rightarrow> 'v \<Rightarrow> 'w \<Rightarrow>
     (unit, NetError) Result \<times> 'w" where
  "Service_broadcast N J topic s message w =
     (case broadcast_action J topic message of
        Err e \<Rightarrow> (Err e, w)
      | Ok item \<Rightarrow>
          (let (r, w') = action_send N (s_action_sender s) item w in (map_err ChannelSend r, w')))"

definition Event_origin :: "'v Net_Event \<Rightarrow> PeerId" where
  "Event_origin e = ev_origin e"

definition Event_value :: "'v Net_Event \<Rightarrow> 'v" where
  "Event_value e = ev_value e"

definition Event_into_value :: "'v Net_Event \<Rightarrow> 'v" where
  "Event_into_value e = ev_value e"

text \<open>The dictionaries of the traits that the service and its events implement. The topic of a
  message is converted by \<open>into\<close> to a string.\<close>

definition Service_ServiceT :: "('i cell_store, 'as Service, PeerId, 'i) ServiceT" where
  "Service_ServiceT =
     \<lparr>svc_local_info = Service_local_info, svc_set_local_info = Service_set_local_info,
      svc_peers = Service_peers\<rparr>"

definition Event_EventT :: "('v Net_Event, PeerId, 'v) EventT" where
  "Event_EventT = \<lparr>evt_origin = Event_origin, evt_value = Event_value, evt_into_value = Event_into_value\<rparr>"

definition Service_BroadcastServiceT ::
  "('gs, 'h, 's, 'r, 'as, 'ar, 'w) NetLib \<Rightarrow> 'v Serde \<Rightarrow> ('v, 'topic) MessageT \<Rightarrow> ('topic \<Rightarrow> string) \<Rightarrow>
     ('i cell_store, 'as Service, PeerId, 'i, 'v Net_Event, 'v, 'topic, 'r, NetError, 'w) BroadcastServiceT" where
  "Service_BroadcastServiceT N J M topic_into =
     \<lparr>bcs_service = Service_ServiceT, bcs_event = Event_EventT,
      bcs_listen = (\<lambda>s topic. Service_listen N s (topic_into topic)),
      bcs_broadcast = Service_broadcast N J (\<lambda>m. topic_into (message_topic M m))\<rparr>"

end
