(* ===== verification/WorkerProperties.thy ===== *)
theory WorkerProperties
  imports Worker
begin

text \<open>
  The properties of the worker and its services: what a gossip message does to the listeners, how
  \<open>run\<close> ends, that the listeners are indexed by the hash of their topic, and that all services of a
  worker share its local information.
\<close>

section \<open>The service interface\<close>

lemma Service_ServiceT_sel [simp]:
  "svc_local_info Service_ServiceT = Service_local_info"
  "svc_set_local_info Service_ServiceT = Service_set_local_info" "svc_peers Service_ServiceT = Service_peers"
  by (simp_all add: Service_ServiceT_def)

interpretation svc: service_interface Service_ServiceT "\<lambda>s s'. s_local_info s' = s_local_info s"
proof (unfold_locales, goal_cases)
  case (1 st s x i)
  let ?f = "\<lambda>p. p\<lparr>pfi_info := i\<rparr>"
  obtain p where p: "Arc_read (s_local_info s) (st_info st) = Return p"
    using 1 by (cases "Arc_read (s_local_info s) (st_info st)") (auto simp: Service_local_info_def)
  obtain c where c: "Arc_write (s_local_info s) ?f (st_info st) = Return c"
    using arc.write_readable [OF p] by blast
  have "Arc_read (s_local_info s) c = Return (?f p)" using arc.write_read [OF c p] by simp
  moreover have "Arc_read a c = Arc_read a (st_info st)" if "a \<noteq> s_local_info s" for a
    using arc.read_write_other [OF c that] .
  ultimately show ?case
    by (simp add: Service_set_local_info_def c Service_local_info_def Service_peers_def fun_eq_iff)
qed simp

section \<open>Gossip messages\<close>

text \<open>The documented behaviour of a channel: sending on a closed one fails and delivers nothing.\<close>

definition closed_channel_spec :: "('gs, 'h, 's, 'r, 'as, 'ar, 'w) NetLib \<Rightarrow> bool" where
  "closed_channel_spec N \<longleftrightarrow> (\<forall>w s x. msg_is_closed N w s \<longrightarrow> (\<exists>e. msg_send N s x w = (Err e, w)))"

lemma send_all_closed:
  assumes "closed_channel_spec N" "\<forall>s \<in> set ss. msg_is_closed N w s"
  shows "\<exists>r. send_all N item ss w = (r, w) \<and> (is_ok r \<longleftrightarrow> ss = [])"
proof (cases ss)
  case (Cons s ss')
  then obtain e where "msg_send N s item w = (Err e, w)"
    using assms unfolding closed_channel_spec_def by fastforce
  then show ?thesis by (simp add: Cons)
qed simp

lemma step_gossip_outcome:
  assumes "closed_channel_spec N" "HashMap_get (w_broadcast_listen_senders wk) (gm_topic m) = Some (t, ss)"
  shows "\<exists>r. step_gossip N m wk w =
      (r, wk\<lparr>w_broadcast_listen_senders := HashMap_insert (gm_topic m) (t, filter (msg_is_closed N w) ss)
              (w_broadcast_listen_senders wk)\<rparr>, w) \<and>
    (is_ok r \<longleftrightarrow> (\<forall>s \<in> set ss. \<not> msg_is_closed N w s))"
proof -
  let ?ss = "filter (msg_is_closed N w) ss"
  have "\<forall>s \<in> set ?ss. msg_is_closed N w s" by simp
  from send_all_closed [OF assms(1) this]
  obtain r where r: "\<And>item. send_all N item ?ss w = (r item, w)" "\<And>item. is_ok (r item) \<longleftrightarrow> ?ss = []" by metis
  have "?ss = [] \<longleftrightarrow> (\<forall>s \<in> set ss. \<not> msg_is_closed N w s)" by (simp add: filter_empty_conv)
  then show ?thesis
    using assms(2) r by (cases "gm_source m") (simp_all add: step_gossip_def Let_def)
qed

lemma step_world:
  assumes "closed_channel_spec N" "Worker_step N e wk w = (r, wk', w')"
  shows "w' = w"
proof (cases e)
  case (Action a)
  with assms(2) show ?thesis by (auto simp: Let_def split: prod.splits)
next
  case (Gossip m)
  show ?thesis
  proof (cases "HashMap_get (w_broadcast_listen_senders wk) (gm_topic m)")
    case None
    with Gossip assms(2) show ?thesis by (simp add: step_gossip_def)
  next
    case (Some p)
    with Gossip assms(2) step_gossip_outcome [OF assms(1), of wk m "fst p" "snd p" w] show ?thesis by auto
  qed
qed (use assms in simp)

section \<open>Runs\<close>

lemma run_append:
  "Worker_run N (es @ fs) wk w =
     (case Worker_run N es wk w of
        (None, wk', w') \<Rightarrow> Worker_run N fs wk' w'
      | (Some err, wk', w') \<Rightarrow> (Some err, wk', w'))"
proof (induction es arbitrary: wk w)
  case (Cons e es)
  obtain r wk1 w1 where "Worker_step N e wk w = (r, wk1, w1)" by (metis prod_cases3)
  with Cons show ?case by (cases r) simp_all
qed simp

lemma run_first_error:
  "Worker_run N es wk w = (Some err, wk', w') \<Longrightarrow>
     \<exists>pre e post wk1 w1. es = pre @ e # post \<and> Worker_run N pre wk w = (None, wk1, w1) \<and>
       Worker_step N e wk1 w1 = (Err err, wk', w')"
proof (induction es arbitrary: wk w)
  case (Cons e es)
  obtain r wk1 w1 where s: "Worker_step N e wk w = (r, wk1, w1)" by (metis prod_cases3)
  show ?case
  proof (cases r)
    case (Ok u)
    with Cons.prems s have "Worker_run N es wk1 w1 = (Some err, wk', w')" by simp
    from Cons.IH [OF this] obtain pre e' post wk2 w2 where "es = pre @ e' # post"
      "Worker_run N pre wk1 w1 = (None, wk2, w2)" "Worker_step N e' wk2 w2 = (Err err, wk', w')" by blast
    then show ?thesis by (intro exI [of _ "e # pre"] exI [of _ e'] exI [of _ post]) (simp add: s Ok)
  next
    case (Err x)
    with Cons.prems s show ?thesis by (intro exI [of _ "[]"] exI [of _ e] exI [of _ es]) simp
  qed
qed simp

text \<open>An invariant that every step keeps holds after a run.\<close>

lemma run_invariant:
  assumes "\<And>e wk w r wk' w'. P wk w \<Longrightarrow> Worker_step N e wk w = (r, wk', w') \<Longrightarrow> P wk' w'"
    and "P wk w" "Worker_run N es wk w = (r, wk', w')"
  shows "P wk' w'"
  using assms(2,3)
proof (induction es arbitrary: wk w)
  case (Cons e es)
  obtain r1 wk1 w1 where s: "Worker_step N e wk w = (r1, wk1, w1)" by (metis prod_cases3)
  from assms(1) [OF Cons.prems(1) s] have "P wk1 w1" .
  with Cons s show ?case by (cases r1) auto
qed simp

section \<open>Listeners\<close>

text \<open>Every entry of the table of listeners is filed under the hash of its topic.\<close>

definition listeners_ok ::
  "('gs, 'h, 's, 'r, 'as, 'ar, 'w) NetLib \<Rightarrow> ('sw, 'h, 's, 'ar, 'as) Worker \<Rightarrow> bool" where
  "listeners_ok N wk \<longleftrightarrow>
     (\<forall>h t ss. HashMap_get (w_broadcast_listen_senders wk) h = Some (t, ss) \<longrightarrow> IdentTopic_hash N t = h)"

lemma listeners_ok_action:
  assumes "listeners_ok N wk"
  shows "listeners_ok N (snd (step_action N a wk))"
proof (cases a)
  case (BroadcastSend message)
  then show ?thesis
    using assms by (simp add: listeners_ok_def Let_def split: prod.split Result.split)
next
  case (BroadcastListen sender topic)
  show ?thesis
    using assms unfolding BroadcastListen listeners_ok_def
    by (auto simp: Let_def entry_or_def map_simps split: prod.splits Result.splits if_splits option.splits)
qed

lemma listeners_ok_step:
  assumes "listeners_ok N wk" "Worker_step N e wk w = (r, wk', w')"
  shows "listeners_ok N wk'"
proof (cases e)
  case (Action a)
  with assms listeners_ok_action [OF assms(1), of a] show ?thesis by (auto simp: Let_def split: prod.splits)
next
  case (Gossip m)
  show ?thesis
  proof (cases "HashMap_get (w_broadcast_listen_senders wk) (gm_topic m)")
    case None
    with Gossip assms show ?thesis by (simp add: step_gossip_def)
  next
    case (Some p)
    obtain t ss where p: "p = (t, ss)" by fastforce
    have "IdentTopic_hash N t = gm_topic m" using assms(1) Some p by (simp add: listeners_ok_def)
    moreover have "w_broadcast_listen_senders wk' = HashMap_insert (gm_topic m)
        (t, filter (msg_is_closed N w) ss) (w_broadcast_listen_senders wk)"
      using Gossip assms(2) Some p by (auto simp: step_gossip_def Let_def split: prod.splits)
    ultimately show ?thesis
      using assms(1) by (auto simp: listeners_ok_def map_simps)
  qed
qed (use assms in simp)

section \<open>A new worker\<close>

lemma build_behaviour_info:
  "build_behaviour BL info key = Ok n \<Longrightarrow>
     n_peer_info n = Behaviour_new (address_books BL)
       (Config_new ''/blocknet/v0.1'' key ''/blocknet/peer_info/v0.1'' ''/blocknet/peer_info/push/v0.1'')
       \<lparr>pfi_info = info\<rparr>"
  by (cases "gossipsub_new BL key"; cases "mdns_new BL (from_public_key BL key)")
    (auto simp: build_behaviour_def Let_def)

lemma Worker_new_Ok:
  assumes "Worker_new N BL info st w = (Ok wk, st1, w1)"
  shows "Service_local_info st1 (Worker_service wk) = Return info"
    and "Service_peers st1 (Worker_service wk) = Return []"
    and "b_local_info (n_peer_info (w_swarm wk)) = \<lparr>pfi_info = info\<rparr>"
    and "w_broadcast_listen_senders wk = []"
proof -
  obtain n where n: "with_tcp BL = Ok ()" "build_behaviour BL info (new_identity_public_key BL) = Ok n"
    using assms unfolding Worker_new_def
    by (cases "with_tcp BL"; cases "build_behaviour BL info (new_identity_public_key BL)") auto
  obtain acts w' where a: "action_channel N ACTION_CHANNEL_BUFFER_SIZE w = (acts, w')" by fastforce
  obtain p ps where p: "Arc_new [] (st_peers st) = (p, ps)" by fastforce
  obtain q qs where q: "Arc_new \<lparr>pfi_info = info\<rparr> (st_info st) = (q, qs)" by fastforce
  have wk: "w_swarm wk = n" "w_peers wk = p" "w_local_info wk = q" "w_broadcast_listen_senders wk = []"
    "st_peers st1 = ps" "st_info st1 = qs"
    using assms by (auto simp: Worker_new_def n a p q split: prod.splits)
  show "Service_local_info st1 (Worker_service wk) = Return info"
    by (simp add: Service_local_info_def Worker_service_def wk Arc_new_read(1) [OF q])
  show "Service_peers st1 (Worker_service wk) = Return []"
    by (simp add: Service_peers_def Worker_service_def wk Arc_new_read(1) [OF p])
  show "b_local_info (n_peer_info (w_swarm wk)) = \<lparr>pfi_info = info\<rparr>"
    using build_behaviour_info [OF n(2)] by (simp add: wk(1) Behaviour_new_def)
  show "w_broadcast_listen_senders wk = []" by (rule wk(4))
qed

section \<open>A concrete library\<close>

text \<open>Gossipsub that records what is published and subscribed, and channels with one open listener
  1 and one closed listener 2, whose state is the list of the items delivered.\<close>

type_synonym demo_gossip = "(string \<times> u8 list) list \<times> string list"

definition demo_net ::
  "(demo_gossip, string, nat, nat, unit, unit, (nat \<times> broadcast_item) list) NetLib" where
  "demo_net =
     \<lparr>IdentTopic_hash = (\<lambda>t. t),
      gossipsub_publish = (\<lambda>t d (ps, ss).
        if t \<in> set ss then (Ok (), (ps @ [(t, d)], ss)) else (Err ''InsufficientPeers'', (ps, ss))),
      gossipsub_subscribe = (\<lambda>t (ps, ss). (Ok (t \<notin> set ss), (ps, t # ss))),
      msg_channel = (\<lambda>_ w. ((1, 1), w)),
      msg_is_closed = (\<lambda>_ s. s = 2),
      msg_send = (\<lambda>s x w. if s = 2 then (Err ''Disconnected'', w) else (Ok (), w @ [(s, x)])),
      action_channel = (\<lambda>_ w. (((), ()), w)),
      action_send = (\<lambda>_ _ w. (Ok (), w))\<rparr>"

lemma demo_net_closed: "closed_channel_spec demo_net"
  by (simp add: closed_channel_spec_def demo_net_def)

definition demo_build ::
  "(demo_gossip, unit, unit, Multiaddr list, unit, Multiaddr, unit, unit) BuildLib" where
  "demo_build =
     \<lparr>new_identity_public_key = [3], with_tcp = Ok (), from_public_key = (\<lambda>k. k),
      gossipsub_new = (\<lambda>_. Ok ([], [])), kad_new = (\<lambda>_. ()), identify_new = (\<lambda>_ _. ()),
      mdns_new = (\<lambda>_. Ok ()), request_response_new = (\<lambda>_. ()),
      address_books =
        \<lparr>ListenAddresses_default = [], ListenAddresses_on_swarm_event = (\<lambda>_ la. (False, la)),
         ListenAddresses_iter = (\<lambda>la. la), ExternalAddresses_default = (),
         ExternalAddresses_on_swarm_event = (\<lambda>_ _. (False, ())), ExternalAddresses_iter = (\<lambda>_. [])\<rparr>\<rparr>"

type_synonym demo_worker =
  "(demo_gossip, unit, unit, u8 list, Multiaddr list, unit, unit, unit, string, nat, unit, unit) worker"

definition demo_start where
  "demo_start = Worker_new demo_net demo_build [1 :: u8] \<lparr>st_peers = [], st_info = []\<rparr> []"

definition demo_worker :: demo_worker where
  "demo_worker = (case fst demo_start of Ok wk \<Rightarrow> wk)"

lemma demo_worker_new: "demo_start = (Ok demo_worker, fst (snd demo_start), [])"
proof -
  have "is_ok (fst demo_start)" "snd (snd demo_start) = []" by code_simp+
  then have "fst demo_start = Ok demo_worker" by (cases "fst demo_start") (simp_all add: demo_worker_def)
  with \<open>snd (snd demo_start) = []\<close> show ?thesis by (simp add: prod_eq_iff)
qed

text \<open>Two listeners on one topic, the second of which is closed.\<close>

definition demo_listening :: demo_worker where
  "demo_listening = fst (snd (Worker_run demo_net
     [Action (BroadcastListen 1 ''t''), Action (BroadcastListen 2 ''t'')] demo_worker []))"

definition demo_gossip_message :: "string gossip_message" where
  "demo_gossip_message = \<lparr>gm_source = Some [8], gm_data = [42], gm_topic = ''t''\<rparr>"

section \<open>Properties\<close>

text \<open>C15. A gossip message on a topic with listeners is delivered to none of them. The listeners
  whose channel is still open are removed and the closed ones are kept; the step fails if and only
  if some listener is closed. (The condition of \<open>retain\<close> keeps the senders that it is meant to
  drop.)\<close>

theorem gossip_drops_open_listeners:
  assumes "closed_channel_spec N" "HashMap_get (w_broadcast_listen_senders wk) (gm_topic m) = Some (t, ss)"
  shows "\<exists>r. Worker_step N (Gossip m) wk w =
      (r, wk\<lparr>w_broadcast_listen_senders := HashMap_insert (gm_topic m) (t, filter (msg_is_closed N w) ss)
              (w_broadcast_listen_senders wk)\<rparr>, w) \<and>
    (is_ok r \<longleftrightarrow> (\<forall>s \<in> set ss. \<not> msg_is_closed N w s))"
  unfolding Worker_step.simps using assms by (rule step_gossip_outcome)

theorem gossip_drops_open_listeners_witness:
  "\<exists>r. Worker_step demo_net (Gossip demo_gossip_message) demo_listening [] =
      (r, demo_listening\<lparr>w_broadcast_listen_senders := [(''t'', (''t'', [2]))]\<rparr>, []) \<and> \<not> is_ok r"
proof -
  have "HashMap_get (w_broadcast_listen_senders demo_listening) (gm_topic demo_gossip_message) = Some (''t'', [1, 2])"
    by code_simp
  note * = gossip_drops_open_listeners [OF demo_net_closed this, of "[]"]
  have "HashMap_insert (gm_topic demo_gossip_message) (''t'', filter (msg_is_closed demo_net []) [1, 2])
      (w_broadcast_listen_senders demo_listening) = [(''t'', (''t'', [2]))]"
    "\<not> (\<forall>s \<in> set [1, 2]. \<not> msg_is_closed demo_net [] s)" by code_simp+
  with * show ?thesis by (simp only:) blast
qed

text \<open>C16. No run of the worker ever delivers anything to a listener: whatever actions and events it
  serves, the channels of the listeners are as they were at the start.\<close>

theorem run_delivers_nothing:
  assumes "closed_channel_spec N" "Worker_run N es wk w = (r, wk', w')"
  shows "w' = w"
  by (rule run_invariant [where P = "\<lambda>_ w'. w' = w", OF _ refl assms(2)])
    (simp add: step_world [OF assms(1)])

theorem run_delivers_nothing_witness:
  "snd (snd (Worker_run demo_net [Gossip demo_gossip_message, OtherSwarmEvent] demo_listening [])) = []"
proof -
  obtain r wk' w' where "Worker_run demo_net [Gossip demo_gossip_message, OtherSwarmEvent] demo_listening [] = (r, wk', w')"
    by (metis prod_cases3)
  with run_delivers_nothing [OF demo_net_closed this] show ?thesis by simp
qed

text \<open>\<open>run\<close> returns with an error exactly when, after events that were all served without an
  error, the next step returns that error; it never returns otherwise.\<close>

lemma run_stops_at_first_error:
  "Worker_run N es wk w = (Some err, wk', w') \<longleftrightarrow>
     (\<exists>pre e post wk1 w1. es = pre @ e # post \<and> Worker_run N pre wk w = (None, wk1, w1) \<and>
        Worker_step N e wk1 w1 = (Err err, wk', w'))"
  using run_first_error [of N es wk w err wk' w'] by (auto simp: run_append)

text \<open>In every run of a new worker the listeners of a topic are filed under its hash, so that a
  message is passed on under the topic whose hash it came with.\<close>

lemma listeners_indexed:
  assumes "w_broadcast_listen_senders wk = []" "Worker_run N es wk w = (r, wk', w')"
    and "HashMap_get (w_broadcast_listen_senders wk') h = Some (t, ss)"
  shows "IdentTopic_hash N t = h"
proof -
  have "listeners_ok N wk" using assms(1) by (simp add: listeners_ok_def)
  with listeners_ok_step have "listeners_ok N wk'"
    by (rule run_invariant [where P = "\<lambda>wk _. listeners_ok N wk", OF _ _ assms(2)])
  then show ?thesis using assms(3) by (simp add: listeners_ok_def)
qed

text \<open>The local information of a new worker: a service handle reads the information the worker
  was created with, after any number of changes through the handle it reads the last one, the list
  of peers is empty then as before, and the peer information that the swarm was built with is still
  the first one.\<close>

lemma service_reads_last_info:
  assumes "Worker_new N BL info st w = (Ok wk, st1, w1)"
  shows "Service_local_info st1 (Worker_service wk) = Return info \<and>
    (\<exists>st2. set_seq Service_ServiceT (Worker_service wk) infos st1 = Return st2 \<and>
      Service_local_info st2 (Worker_service wk) = Return (last (info # infos)) \<and>
      Service_peers st2 (Worker_service wk) = Return []) \<and>
    b_local_info (n_peer_info (w_swarm wk)) = \<lparr>pfi_info = info\<rparr>"
proof -
  note new = Worker_new_Ok [OF assms]
  from svc.set_all_last [of st1 "Worker_service wk" info infos] new show ?thesis by auto
qed

end
