(* ===== verification/NodeRuntime.thy ===== *)
theory NodeRuntime
  imports WorkerProperties
begin

text \<open>
  A running node: the worker of \<open>blocknet/src/libp2p/mod.rs\<close> in its task and the services of
  \<open>service()\<close> in other tasks, with the action channel between them. A step is one call of a service,
  one action that the worker takes from the channel and serves, or one event of the swarm that it
  serves; the steps interleave in any order. The worker stops at its first error. The state also
  records the actions that were sent and served and the local information that was set.

  The receiving end of the action channel is code of \<open>futures\<close>, the parameter \<open>recv\<close>.
\<close>

section \<open>Steps\<close>

record ('wk, 'w, 'i, 's, 'as) Runtime =
  rt_worker :: 'wk
  rt_world :: 'w
  rt_store :: "'i cell_store"
  rt_service :: "'as Service"
  rt_error :: "NetError option"
  rt_sent :: "'s ActionItem list"
  rt_served :: "'s ActionItem list"
  rt_infos :: "'i list"

type_synonym ('gs, 'kad, 'idf, 'i, 'la, 'ea, 'mdns, 'rr, 'h, 's, 'ar, 'as, 'w) runtime =
  "(('gs, 'kad, 'idf, 'i, 'la, 'ea, 'mdns, 'rr, 'h, 's, 'ar, 'as) worker, 'w, 'i, 's, 'as) Runtime"

definition rt_start ::
  "('gs, 'kad, 'idf, 'i, 'la, 'ea, 'mdns, 'rr, 'h, 's, 'ar, 'as) worker \<Rightarrow> 'i cell_store \<Rightarrow> 'w \<Rightarrow> 
     ('gs, 'kad, 'idf, 'i, 'la, 'ea, 'mdns, 'rr, 'h, 's, 'ar, 'as, 'w) runtime" where
  "rt_start wk st w =
     \<lparr>rt_worker = wk, rt_world = w, rt_store = st, rt_service = Worker_service wk, rt_error = None,
      rt_sent = [], rt_served = [], rt_infos = []\<rparr>"

definition rt_broadcast ::
  "('gs, 'h, 's, 'r, 'as, 'ar, 'w) NetLib \<Rightarrow> 'v Serde \<Rightarrow> ('v \<Rightarrow> string) \<Rightarrow> 'v \<Rightarrow> 
     ('gs, 'kad, 'idf, 'i, 'la, 'ea, 'mdns, 'rr, 'h, 's, 'ar, 'as, 'w) runtime \<Rightarrow> 
     ('gs, 'kad, 'idf, 'i, 'la, 'ea, 'mdns, 'rr, 'h, 's, 'ar, 'as, 'w) runtime" where
  "rt_broadcast N J topic m s =
     (case Service_broadcast N J topic (rt_service s) m (rt_world s) of
        (Ok _, w) \<Rightarrow> s\<lparr>rt_world := w,
           rt_sent := rt_sent s @ (case broadcast_action J topic m of Ok a \<Rightarrow> [a] | Err _ \<Rightarrow> [])\<rparr>
      | (Err _, w) \<Rightarrow> s\<lparr>rt_world := w\<rparr>)"

definition rt_listen ::
  "('gs, 'h, 's, 'r, 'as, 'ar, 'w) NetLib \<Rightarrow> string \<Rightarrow> 
     ('gs, 'kad, 'idf, 'i, 'la, 'ea, 'mdns, 'rr, 'h, 's, 'ar, 'as, 'w) runtime \<Rightarrow> 
     ('gs, 'kad, 'idf, 'i, 'la, 'ea, 'mdns, 'rr, 'h, 's, 'ar, 'as, 'w) runtime" where
  "rt_listen N t s =
     (let sender = fst (fst (msg_channel N MESSAGE_CHANNEL_BUFFER_SIZE (rt_world s))) in
      case Service_listen N (rt_service s) t (rt_world s) of
        (Ok _, w) \<Rightarrow> s\<lparr>rt_world := w, rt_sent := rt_sent s @ [BroadcastListen sender t]\<rparr>
      | (Err _, w) \<Rightarrow> s\<lparr>rt_world := w\<rparr>)"

definition rt_set_info ::
  "'i \<Rightarrow> 
     ('gs, 'kad, 'idf, 'i, 'la, 'ea, 'mdns, 'rr, 'h, 's, 'ar, 'as, 'w) runtime \<Rightarrow> 
     ('gs, 'kad, 'idf, 'i, 'la, 'ea, 'mdns, 'rr, 'h, 's, 'ar, 'as, 'w) runtime" where
  "rt_set_info i s =
     (case Service_set_local_info (rt_service s) i (rt_store s) of
        Return st \<Rightarrow> s\<lparr>rt_store := st, rt_infos := rt_infos s @ [i]\<rparr>
      | Panic _ \<Rightarrow> s)"

fun err_of :: "(unit, NetError) Result \<Rightarrow> NetError option" where
  "err_of (Ok _) = None"
| "err_of (Err e) = Some e"

definition rt_event ::
  "('gs, 'h, 's, 'r, 'as, 'ar, 'w) NetLib \<Rightarrow> ('s, 'h) step_event \<Rightarrow> 
     ('gs, 'kad, 'idf, 'i, 'la, 'ea, 'mdns, 'rr, 'h, 's, 'ar, 'as, 'w) runtime \<Rightarrow> 
     ('gs, 'kad, 'idf, 'i, 'la, 'ea, 'mdns, 'rr, 'h, 's, 'ar, 'as, 'w) runtime" where
  "rt_event N e s =
     (if rt_error s \<noteq> None then s
      else case Worker_step N e (rt_worker s) (rt_world s) of
        (r, wk, w) \<Rightarrow> s\<lparr>rt_worker := wk, rt_world := w, rt_error := err_of r\<rparr>)"

text \<open>The branch of \<open>select!\<close> in \<open>step\<close> that takes the next action from the channel and serves it; with
  no action in the channel the branch is not ready. The action is recorded once it was served.\<close>

definition rt_serve ::
  "('gs, 'h, 's, 'r, 'as, 'ar, 'w) NetLib \<Rightarrow> ('ar \<Rightarrow> 'w \<Rightarrow> ('s ActionItem \<times> 'w) option) \<Rightarrow> 
     ('gs, 'kad, 'idf, 'i, 'la, 'ea, 'mdns, 'rr, 'h, 's, 'ar, 'as, 'w) runtime \<Rightarrow> 
     ('gs, 'kad, 'idf, 'i, 'la, 'ea, 'mdns, 'rr, 'h, 's, 'ar, 'as, 'w) runtime" where
  "rt_serve N recv s =
     (if rt_error s \<noteq> None then s
      else case recv (w_action_receiver (rt_worker s)) (rt_world s) of
        None \<Rightarrow> s
      | Some (a, w) \<Rightarrow> (rt_event N (Action a) (s\<lparr>rt_world := w\<rparr>))\<lparr>rt_served := rt_served s @ [a]\<rparr>)"

inductive runtime_run ::
  "('gs, 'h, 's, 'r, 'as, 'ar, 'w) NetLib \<Rightarrow> ('ar \<Rightarrow> 'w \<Rightarrow> ('s ActionItem \<times> 'w) option) \<Rightarrow>
     'v Serde \<Rightarrow> ('v \<Rightarrow> string) \<Rightarrow>
     ('gs, 'kad, 'idf, 'i, 'la, 'ea, 'mdns, 'rr, 'h, 's, 'ar, 'as, 'w) runtime \<Rightarrow>
     ('gs, 'kad, 'idf, 'i, 'la, 'ea, 'mdns, 'rr, 'h, 's, 'ar, 'as, 'w) runtime \<Rightarrow> bool"
  for N recv J topic s0
where
  rt_begin: "runtime_run N recv J topic s0 s0"
| rt_step_broadcast: "runtime_run N recv J topic s0 s \<Longrightarrow> runtime_run N recv J topic s0 (rt_broadcast N J topic m s)"
| rt_step_listen: "runtime_run N recv J topic s0 s \<Longrightarrow> runtime_run N recv J topic s0 (rt_listen N t s)"
| rt_step_set: "runtime_run N recv J topic s0 s \<Longrightarrow> runtime_run N recv J topic s0 (rt_set_info i s)"
| rt_step_gossip: "runtime_run N recv J topic s0 s \<Longrightarrow> runtime_run N recv J topic s0 (rt_event N (Gossip m) s)"
| rt_step_other: "runtime_run N recv J topic s0 s \<Longrightarrow> runtime_run N recv J topic s0 (rt_event N OtherSwarmEvent s)"
| rt_step_serve: "runtime_run N recv J topic s0 s \<Longrightarrow> runtime_run N recv J topic s0 (rt_serve N recv s)"

section \<open>The action channel\<close>

text \<open>
  The contract of \<open>futures::channel::mpsc\<close> for the action channel, with \<open>feeds\<close> the receiver that
  a sender belongs to and \<open>pending\<close> the items between them: a new channel is empty, an item that is
  sent goes behind those that wait, the receiver takes the first one, and channels do not
  disturb each other.
\<close>

definition action_channel_spec where
  "action_channel_spec N recv feeds pending \<longleftrightarrow>
     (\<forall>n w s r w'. action_channel N n w = ((s, r), w') \<longrightarrow> feeds s r \<and> pending r w' = []) \<and>
     (\<forall>s r a w res w'. feeds s r \<longrightarrow> action_send N s a w = (res, w') \<longrightarrow>
        pending r w' = pending r w @ (if is_ok res then [a] else [])) \<and>
     (\<forall>r w a w'. recv r w = Some (a, w') \<longrightarrow> pending r w = a # pending r w') \<and>
     (\<forall>r w. recv r w = None \<longrightarrow> pending r w = []) \<and>
     (\<forall>n w r x w'. msg_channel N n w = (x, w') \<longrightarrow> pending r w' = pending r w) \<and>
     (\<forall>s x w r res w'. msg_send N s x w = (res, w') \<longrightarrow> pending r w' = pending r w)"

lemma channel_new: "action_channel_spec N recv feeds pending \<Longrightarrow>
    action_channel N n w = ((s, r), w') \<Longrightarrow> feeds s r \<and> pending r w' = []"
  by (simp add: action_channel_spec_def)

lemma channel_send: "action_channel_spec N recv feeds pending \<Longrightarrow> feeds s r \<Longrightarrow>
    action_send N s a w = (res, w') \<Longrightarrow> pending r w' = pending r w @ (if is_ok res then [a] else [])"
  by (simp add: action_channel_spec_def)

lemma channel_next: "action_channel_spec N recv feeds pending \<Longrightarrow> recv r w = Some (a, w') \<Longrightarrow>
    pending r w = a # pending r w'"
  by (simp add: action_channel_spec_def)

lemma channel_empty: "action_channel_spec N recv feeds pending \<Longrightarrow> recv r w = None \<Longrightarrow> pending r w = []"
  by (simp add: action_channel_spec_def)

lemma channel_msg_channel: "action_channel_spec N recv feeds pending \<Longrightarrow> msg_channel N n w = ((s, x), w') \<Longrightarrow>
    pending r w' = pending r w"
  by (simp add: action_channel_spec_def)

lemma channel_msg_send: "action_channel_spec N recv feeds pending \<Longrightarrow> msg_send N s x w = (res, w') \<Longrightarrow>
    pending r w' = pending r w"
  by (simp add: action_channel_spec_def)

lemma send_all_pending:
  "action_channel_spec N recv feeds pending \<Longrightarrow> send_all N item ss w = (res, w') \<Longrightarrow> pending r w' = pending r w"
proof (induction ss arbitrary: w)
  case (Cons s ss)
  obtain q w1 where q: "msg_send N s item w = (q, w1)" by fastforce
  from channel_msg_send [OF Cons.prems(1) q, of r] Cons q show ?case by (cases q) auto
qed simp

text \<open>What a step of the worker does to its own receiver and to the action channel.\<close>

lemma step_frame:
  assumes spec: "action_channel_spec N recv feeds pending" and s: "Worker_step N e wk w = (res, wk', w')"
  shows "w_action_receiver wk' = w_action_receiver wk \<and> pending r w' = pending r w"
proof (cases e)
  case (Action a)
  with s show ?thesis by (cases a) (auto simp: Let_def split: prod.splits Result.splits)
next
  case (Gossip m)
  with s show ?thesis
    by (auto simp: step_gossip_def Let_def send_all_pending [OF spec] split: option.splits prod.splits)
qed (use s in simp)

text \<open>Only actions change the gossipsub state, and each in its own way.\<close>

fun gossip_action where
  "gossip_action N (BroadcastSend message) gs = snd (gossipsub_publish N (am_topic message) (am_serialized message) gs)"
| "gossip_action N (BroadcastListen sender t) gs = snd (gossipsub_subscribe N t gs)"

lemma step_swarm:
  assumes "Worker_step N e wk w = (res, wk', w')"
  shows "w_swarm wk' = (case e of Action a \<Rightarrow> (w_swarm wk)\<lparr>n_gossipsub := gossip_action N a (n_gossipsub (w_swarm wk))\<rparr>
    | _ \<Rightarrow> w_swarm wk)"
proof (cases e)
  case (Action a)
  with assms show ?thesis by (cases a) (auto simp: Let_def split: prod.splits Result.splits)
next
  case (Gossip m)
  with assms show ?thesis by (auto simp: step_gossip_def Let_def split: option.splits prod.splits)
qed (use assms in simp)

section \<open>Invariants\<close>

definition channel_inv where
  "channel_inv feeds pending s \<longleftrightarrow>
     feeds (s_action_sender (rt_service s)) (w_action_receiver (rt_worker s)) \<and>
     rt_sent s = rt_served s @ pending (w_action_receiver (rt_worker s)) (rt_world s)"

lemma broadcast_channel:
  fixes N :: "('gs, 'h, 's, 'r, 'as, 'ar, 'w) NetLib"
  assumes "action_channel_spec N recv feeds pending" "channel_inv feeds pending s"
  shows "channel_inv feeds pending (rt_broadcast N J topic m s)"
proof (cases "broadcast_action J topic m :: ('s ActionItem, NetError) Result")
  case (Ok a)
  obtain res w where "action_send N (s_action_sender (rt_service s)) a (rt_world s) = (res, w)" by fastforce
  with channel_send [OF assms(1) _ this] assms(2) Ok show ?thesis
    by (cases res) (auto simp: rt_broadcast_def Service_broadcast_def channel_inv_def)
qed (use assms in \<open>simp add: rt_broadcast_def Service_broadcast_def channel_inv_def\<close>)

lemma listen_channel:
  assumes "action_channel_spec N recv feeds pending" "channel_inv feeds pending s"
  shows "channel_inv feeds pending (rt_listen N t s)"
proof -
  obtain sender x w1 where m: "msg_channel N MESSAGE_CHANNEL_BUFFER_SIZE (rt_world s) = ((sender, x), w1)"
    by (metis surj_pair)
  obtain res w where a: "action_send N (s_action_sender (rt_service s)) (BroadcastListen sender t) w1 = (res, w)"
    by fastforce
  from channel_send [OF assms(1) _ a] channel_msg_channel [OF assms(1) m] assms(2) m a show ?thesis
    by (cases res) (auto simp: rt_listen_def Service_listen_def channel_inv_def)
qed

lemma event_channel:
  assumes "action_channel_spec N recv feeds pending" "channel_inv feeds pending s"
  shows "channel_inv feeds pending (rt_event N e s)"
proof -
  obtain res wk w where s: "Worker_step N e (rt_worker s) (rt_world s) = (res, wk, w)" by (metis prod_cases3)
  from step_frame [OF assms(1) s, of "w_action_receiver (rt_worker s)"] assms(2) s show ?thesis
    by (auto simp: rt_event_def channel_inv_def)
qed

text \<open>The record of the actions served does not influence a step.\<close>

lemma rt_event_served:
  "rt_event N e (s\<lparr>rt_world := w, rt_served := as\<rparr>) = (rt_event N e (s\<lparr>rt_world := w\<rparr>))\<lparr>rt_served := as\<rparr>"
  by (simp add: rt_event_def split: prod.split)

lemma serve_channel:
  assumes "action_channel_spec N recv feeds pending" "channel_inv feeds pending s"
  shows "channel_inv feeds pending (rt_serve N recv s)"
proof (cases "recv (w_action_receiver (rt_worker s)) (rt_world s)")
  case (Some p)
  obtain a w where p: "p = (a, w)" by fastforce
  let ?s = "s\<lparr>rt_world := w, rt_served := rt_served s @ [a]\<rparr>"
  have "channel_inv feeds pending ?s"
    using channel_next [OF assms(1) Some [unfolded p]] assms(2) by (simp add: channel_inv_def)
  from event_channel [OF assms(1) this, of "Action a"] assms(2) Some p
  show ?thesis by (simp add: rt_serve_def rt_event_served)
qed (use assms in \<open>simp add: rt_serve_def\<close>)

lemma runtime_channel:
  assumes spec: "action_channel_spec N recv feeds pending" and run: "runtime_run N recv J topic s0 s"
    and start: "channel_inv feeds pending s0"
  shows "channel_inv feeds pending s"
  using run
proof (induction rule: runtime_run.induct)
  case (rt_step_set s i)
  then show ?case by (auto simp: rt_set_info_def channel_inv_def split: outcome.split)
qed (simp_all add: start broadcast_channel [OF spec] listen_channel [OF spec] event_channel [OF spec]
    serve_channel [OF spec])

text \<open>The gossipsub state is that of the start after the actions served, in order; the rest of the
  swarm is that of the start.\<close>

definition swarm_inv where
  "swarm_inv N s0 s \<longleftrightarrow> w_swarm (rt_worker s) = (w_swarm (rt_worker s0))
     \<lparr>n_gossipsub := fold (gossip_action N) (rt_served s) (n_gossipsub (w_swarm (rt_worker s0)))\<rparr>"

lemma event_swarm:
  assumes "swarm_inv N s0 s" "\<And>a. e \<noteq> Action a"
  shows "swarm_inv N s0 (rt_event N e s)"
proof -
  obtain res wk w where s: "Worker_step N e (rt_worker s) (rt_world s) = (res, wk, w)" by (metis prod_cases3)
  have "w_swarm wk = w_swarm (rt_worker s)" using step_swarm [OF s] assms(2) by (auto split: step_event.splits)
  with s assms(1) show ?thesis by (simp add: rt_event_def swarm_inv_def)
qed

lemma serve_swarm:
  assumes "swarm_inv N s0 s"
  shows "swarm_inv N s0 (rt_serve N recv s)"
proof (cases "recv (w_action_receiver (rt_worker s)) (rt_world s)")
  case (Some p)
  obtain a w where p: "p = (a, w)" by fastforce
  obtain res wk w' where s: "Worker_step N (Action a) (rt_worker s) w = (res, wk, w')" by (metis prod_cases3)
  from step_swarm [OF s] assms Some p s show ?thesis by (simp add: rt_serve_def rt_event_def swarm_inv_def del: Worker_step.simps)
qed (use assms in \<open>simp add: rt_serve_def\<close>)

lemma runtime_swarm:
  assumes run: "runtime_run N recv J topic s0 s" and "rt_served s0 = []"
  shows "swarm_inv N s0 s"
  using run
proof (induction rule: runtime_run.induct)
  case rt_begin
  then show ?case using assms(2) by (simp add: swarm_inv_def)
next
  case (rt_step_broadcast s m)
  then show ?case by (simp add: rt_broadcast_def swarm_inv_def split: prod.split Result.split)
next
  case (rt_step_listen s t)
  then show ?case by (simp add: rt_listen_def swarm_inv_def Let_def split: prod.split Result.split)
next
  case (rt_step_set s i)
  then show ?case by (simp add: rt_set_info_def swarm_inv_def split: outcome.split)
qed (simp_all add: event_swarm serve_swarm)

text \<open>The shared cells.\<close>

definition cells_inv where
  "cells_inv info s \<longleftrightarrow>
     Service_local_info (rt_store s) (rt_service s) = Return (last (info # rt_infos s)) \<and>
     Service_peers (rt_store s) (rt_service s) = Return []"

lemma set_cells: "cells_inv info s \<Longrightarrow> cells_inv info (rt_set_info i s)"
  using svc.set_get [of "rt_store s" "rt_service s" "last (info # rt_infos s)" i]
  by (auto simp: cells_inv_def rt_set_info_def)

lemma runtime_cells:
  assumes run: "runtime_run N recv J topic s0 s" and start: "cells_inv info s0"
  shows "cells_inv info s \<and> rt_service s = rt_service s0"
  using run
proof (induction rule: runtime_run.induct)
  case (rt_step_broadcast s m)
  then show ?case by (auto simp: rt_broadcast_def cells_inv_def split: prod.split Result.split)
next
  case (rt_step_listen s t)
  then show ?case by (auto simp: rt_listen_def cells_inv_def Let_def split: prod.split Result.split)
next
  case (rt_step_set s i)
  then show ?case using set_cells [of info s i] by (simp add: rt_set_info_def split: outcome.splits)
qed (use start in \<open>auto simp: rt_event_def rt_serve_def cells_inv_def split: prod.split option.split\<close>)

section \<open>Serving the queue\<close>

text \<open>What serving a queue of actions amounts to, on the gossipsub state alone: the actions that
  succeed, in order, the first one that fails with its error, and the state after them.\<close>

fun action_error where
  "action_error N (BroadcastSend message) gs =
     (case fst (gossipsub_publish N (am_topic message) (am_serialized message) gs) of
        Ok _ \<Rightarrow> None | Err e \<Rightarrow> Some (GossipsubPublish e))"
| "action_error N (BroadcastListen sender t) gs =
     (case fst (gossipsub_subscribe N t gs) of Ok _ \<Rightarrow> None | Err e \<Rightarrow> Some (GossipsubSubscription e))"

fun serve_spec where
  "serve_spec N [] gs = ([], None, gs)"
| "serve_spec N (a # as) gs =
     (case action_error N a gs of
        Some e \<Rightarrow> ([], Some (a, e), gossip_action N a gs)
      | None \<Rightarrow> (let (oks, failed, gs') = serve_spec N as (gossip_action N a gs) in (a # oks, failed, gs')))"

text \<open>The listeners filed under a topic hash, and those that a list of actions asks for.\<close>

definition listeners_at where
  "listeners_at wk h =
     (case HashMap_get (w_broadcast_listen_senders wk) h of None \<Rightarrow> [] | Some (_, senders) \<Rightarrow> senders)"

fun listens_at where
  "listens_at N h [] = []"
| "listens_at N h (BroadcastSend message # as) = listens_at N h as"
| "listens_at N h (BroadcastListen sender t # as) =
     (if IdentTopic_hash N t = h then sender # listens_at N h as else listens_at N h as)"

lemma listens_at_Cons: "listens_at N h (a # as) = listens_at N h [a] @ listens_at N h as"
  by (cases a) simp_all

lemma step_action_effect:
  assumes "step_action N a wk = (r, wk')"
  shows "err_of r = action_error N a (n_gossipsub (w_swarm wk))"
    and "n_gossipsub (w_swarm wk') = gossip_action N a (n_gossipsub (w_swarm wk))"
    and "listeners_at wk' h = listeners_at wk h @ (if r = Ok () then listens_at N h [a] else [])"
proof (atomize (full), cases a)
  case (BroadcastSend message)
  with assms show "err_of r = action_error N a (n_gossipsub (w_swarm wk)) \<and>
      n_gossipsub (w_swarm wk') = gossip_action N a (n_gossipsub (w_swarm wk)) \<and>
      listeners_at wk' h = listeners_at wk h @ (if r = Ok () then listens_at N h [a] else [])"
    by (auto simp: Let_def listeners_at_def split: prod.splits Result.splits)
next
  case (BroadcastListen sender t)
  with assms show "err_of r = action_error N a (n_gossipsub (w_swarm wk)) \<and>
      n_gossipsub (w_swarm wk') = gossip_action N a (n_gossipsub (w_swarm wk)) \<and>
      listeners_at wk' h = listeners_at wk h @ (if r = Ok () then listens_at N h [a] else [])"
    by (auto simp: Let_def listeners_at_def entry_or_def map_simps split: prod.splits Result.splits option.splits)
qed

lemma rt_serve_stopped: "rt_error s \<noteq> None \<Longrightarrow> (rt_serve N recv ^^ n) s = s"
  by (induction n) (simp_all add: rt_serve_def)

lemma rt_serve_next:
  assumes spec: "action_channel_spec N recv feeds pending" and e: "rt_error s = None"
    and p: "pending (w_action_receiver (rt_worker s)) (rt_world s) = a # as"
    and step: "step_action N a (rt_worker s) = (r, wk)"
  shows "rt_served (rt_serve N recv s) = rt_served s @ [a]"
    and "rt_error (rt_serve N recv s) = err_of r" and "rt_worker (rt_serve N recv s) = wk"
    and "pending (w_action_receiver wk) (rt_world (rt_serve N recv s)) = as"
proof -
  let ?r = "w_action_receiver (rt_worker s)"
  obtain b w where b: "recv ?r (rt_world s) = Some (b, w)"
    using channel_empty [OF spec, of ?r "rt_world s"] p by (cases "recv ?r (rt_world s)") auto
  have ba: "b = a" "pending ?r w = as" using channel_next [OF spec b] p by simp_all
  have st: "Worker_step N (Action a) (rt_worker s) w = (r, wk, w)" using step by simp
  have sv: "rt_serve N recv s = s\<lparr>rt_worker := wk, rt_world := w, rt_error := err_of r, rt_served := rt_served s @ [a]\<rparr>"
    using e b ba st by (simp add: rt_serve_def rt_event_def del: Worker_step.simps)
  show "rt_served (rt_serve N recv s) = rt_served s @ [a]" "rt_error (rt_serve N recv s) = err_of r"
    "rt_worker (rt_serve N recv s) = wk" by (simp_all add: sv)
  show "pending (w_action_receiver wk) (rt_world (rt_serve N recv s)) = as"
    using step_frame [OF spec st, of ?r] ba by (simp add: sv)
qed

definition opt_list :: "'a option \<Rightarrow> 'a list" where
  "opt_list x = (case x of None \<Rightarrow> [] | Some y \<Rightarrow> [y])"

lemma opt_list_simps [simp]: "opt_list None = []" "opt_list (Some y) = [y]"
  by (simp_all add: opt_list_def)

text \<open>The state after serving the actions that waited in the channel.\<close>

definition serves_as where
  "serves_as N pending s s' \<longleftrightarrow>
     (case serve_spec N (pending (w_action_receiver (rt_worker s)) (rt_world s)) (n_gossipsub (w_swarm (rt_worker s))) of
        (oks, failed, gs) \<Rightarrow>
          rt_error s' = map_option snd failed \<and>
          rt_served s' = rt_served s @ oks @ map fst (opt_list failed) \<and>
          pending (w_action_receiver (rt_worker s)) (rt_world s) =
            oks @ map fst (opt_list failed) @ pending (w_action_receiver (rt_worker s')) (rt_world s') \<and>
          n_gossipsub (w_swarm (rt_worker s')) = gs \<and>
          (\<forall>h. listeners_at (rt_worker s') h = listeners_at (rt_worker s) h @ listens_at N h oks))"

lemma rt_serve_all:
  assumes spec: "action_channel_spec N recv feeds pending"
  shows "rt_error s = None \<Longrightarrow> length (pending (w_action_receiver (rt_worker s)) (rt_world s)) = n \<Longrightarrow>
    serves_as N pending s ((rt_serve N recv ^^ n) s)"
proof (induction n arbitrary: s)
  case (Suc n)
  obtain a as where p: "pending (w_action_receiver (rt_worker s)) (rt_world s) = a # as"
    using Suc.prems(2) by (auto simp: length_Suc_conv)
  obtain r wk where step: "step_action N a (rt_worker s) = (r, wk)" by fastforce
  note nxt = rt_serve_next [OF spec Suc.prems(1) p step]
  note eff = step_action_effect [OF step]
  show ?case
  proof (cases r)
    case (Ok u)
    have "serves_as N pending (rt_serve N recv s) ((rt_serve N recv ^^ n) (rt_serve N recv s))"
      using Suc.prems(2) p nxt Ok by (intro Suc.IH) simp_all
    moreover obtain oks failed gs where spec': "serve_spec N as (n_gossipsub (w_swarm wk)) = (oks, failed, gs)"
      by (metis prod_cases3)
    moreover have "action_error N a (n_gossipsub (w_swarm (rt_worker s))) = None"
      "gossip_action N a (n_gossipsub (w_swarm (rt_worker s))) = n_gossipsub (w_swarm wk)"
      using eff(1,2) Ok by simp_all
    ultimately show ?thesis
      using p nxt eff(3) Ok listens_at_Cons [of N _ a oks]
      by (simp only: serves_as_def funpow_swap1 funpow.simps comp_apply) simp
  next
    case (Err e)
    have "(rt_serve N recv ^^ n) (rt_serve N recv s) = rt_serve N recv s"
      by (rule rt_serve_stopped) (simp add: nxt Err)
    moreover have "action_error N a (n_gossipsub (w_swarm (rt_worker s))) = Some e" using eff(1) Err by simp
    ultimately show ?thesis using p nxt eff(2,3) Err by (simp add: serves_as_def funpow_swap1)
  qed
qed (simp add: serves_as_def)

section \<open>A new node\<close>

lemma Worker_new_channel:
  assumes "action_channel_spec N recv feeds pending" "Worker_new N BL info st w = (Ok wk, st1, w1)"
  shows "channel_inv feeds pending (rt_start wk st1 w1)"
proof -
  obtain s r w' where a: "action_channel N ACTION_CHANNEL_BUFFER_SIZE w = ((s, r), w')" by (metis surj_pair)
  have "w_action_sender wk = s" "w_action_receiver wk = r" "w1 = w'"
    using assms(2) a by (auto simp: Worker_new_def Let_def split: Result.splits prod.splits)
  with channel_new [OF assms(1) a] show ?thesis by (simp add: channel_inv_def rt_start_def Worker_service_def)
qed

lemma Worker_new_cells:
  "Worker_new N BL info st w = (Ok wk, st1, w1) \<Longrightarrow> cells_inv info (rt_start wk st1 w1)"
  by (simp add: cells_inv_def rt_start_def Worker_new_Ok)

section \<open>A concrete node\<close>

text \<open>An action channel that is a list, and listeners that are always open.\<close>

definition queue_net ::
  "(demo_gossip, string, nat, nat, unit, unit, nat ActionItem list) NetLib" where
  "queue_net =
     \<lparr>IdentTopic_hash = (\<lambda>t. t),
      gossipsub_publish = gossipsub_publish demo_net, gossipsub_subscribe = gossipsub_subscribe demo_net,
      msg_channel = (\<lambda>_ w. ((1, 1), w)), msg_is_closed = (\<lambda>_ _. False), msg_send = (\<lambda>_ _ w. (Ok (), w)),
      action_channel = (\<lambda>_ w. (((), ()), [])), action_send = (\<lambda>_ a w. (Ok (), w @ [a]))\<rparr>"

fun queue_recv :: "unit \<Rightarrow> nat ActionItem list \<Rightarrow> (nat ActionItem \<times> nat ActionItem list) option" where
  "queue_recv _ [] = None"
| "queue_recv _ (a # w) = Some (a, w)"

lemma queue_net_spec: "action_channel_spec queue_net queue_recv (\<lambda>_ _. True) (\<lambda>_ w. w)"
proof -
  have "queue_recv r w = Some (a, w') \<Longrightarrow> w = a # w'" "queue_recv r w = None \<Longrightarrow> w = []" for r w a w'
    by (cases w; simp)+
  then show ?thesis by (simp add: action_channel_spec_def queue_net_def)
qed

definition queue_start where
  "queue_start = Worker_new queue_net demo_build [1 :: u8] \<lparr>st_peers = [], st_info = []\<rparr> []"

definition queue_worker :: demo_worker where
  "queue_worker = (case fst queue_start of Ok wk \<Rightarrow> wk)"

lemma queue_worker_new:
  "Worker_new queue_net demo_build [1] \<lparr>st_peers = [], st_info = []\<rparr> [] = (Ok queue_worker, fst (snd queue_start), [])"
proof -
  have "is_ok (fst queue_start)" "snd (snd queue_start) = []" by code_simp+
  then have "fst queue_start = Ok queue_worker" by (cases "fst queue_start") (simp_all add: queue_worker_def)
  with \<open>snd (snd queue_start) = []\<close> show ?thesis by (simp add: prod_eq_iff flip: queue_start_def)
qed

text \<open>A listener on a topic, then two broadcasts, a change of the local information in between, and
  one action served.\<close>

definition queue_node0 where
  "queue_node0 = rt_start queue_worker (fst (snd queue_start)) []"

definition queue_node where
  "queue_node =
     rt_broadcast queue_net raw_serde (\<lambda>_. ''t'') [43] (rt_serve queue_net queue_recv (rt_set_info [5]
       (rt_broadcast queue_net raw_serde (\<lambda>_. ''t'') [42] (rt_listen queue_net ''t'' queue_node0))))"

lemma queue_node_run: "runtime_run queue_net queue_recv raw_serde (\<lambda>_. ''t'') queue_node0 queue_node"
  unfolding queue_node_def by (intro rt_step_broadcast rt_step_serve rt_step_set rt_step_listen rt_begin)

lemma queue_node_facts:
  "rt_error queue_node = None" "rt_world queue_node = [BroadcastSend \<lparr>am_topic = ''t'', am_serialized = [42]\<rparr>,
     BroadcastSend \<lparr>am_topic = ''t'', am_serialized = [43]\<rparr>]"
  "rt_served queue_node = [BroadcastListen 1 ''t'']" "rt_infos queue_node = [[5]]"
  by code_simp+

text \<open>Four actions that wait: a listener, a broadcast on its topic, one on a topic without
  subscription, which gossipsub refuses, and another one behind it.\<close>

definition queue_topic :: "u8 list \<Rightarrow> string" where
  "queue_topic m = (if m = [9] then ''u'' else ''t'')"

definition queue_wait where
  "queue_wait =
     rt_broadcast queue_net raw_serde queue_topic [43] (rt_broadcast queue_net raw_serde queue_topic [9]
       (rt_broadcast queue_net raw_serde queue_topic [42] (rt_listen queue_net ''t'' queue_node0)))"

lemma queue_wait_run: "runtime_run queue_net queue_recv raw_serde queue_topic queue_node0 queue_wait"
  unfolding queue_wait_def by (intro rt_step_broadcast rt_step_listen rt_begin)

lemma queue_wait_facts:
  "rt_error queue_wait = None"
  "serve_spec queue_net (rt_world queue_wait) (n_gossipsub (w_swarm (rt_worker queue_wait))) =
     ([BroadcastListen 1 ''t'', BroadcastSend \<lparr>am_topic = ''t'', am_serialized = [42]\<rparr>],
      Some (BroadcastSend \<lparr>am_topic = ''u'', am_serialized = [9]\<rparr>, GossipsubPublish ''InsufficientPeers''),
      ([(''t'', [42])], [''t'']))"
  "length (rt_world queue_wait) = 4"
  "listeners_at (rt_worker queue_wait) ''t'' = []" "IdentTopic_hash queue_net ''t'' = ''t''"
  by code_simp+

section \<open>Properties\<close>

text \<open>C10. The worker serves the actions of its services in the order in which they were sent, none
  twice and none left out: in every run of a new node, however the calls of the services and the
  steps of the worker interleave, the actions sent so far are those served followed by those that
  wait in the action channel, and the gossipsub state is the first one after exactly the actions
  served, in that order.\<close>

theorem actions_served_in_order:
  assumes "action_channel_spec N recv feeds pending" "Worker_new N BL info st w = (Ok wk, st1, w1)"
    and "runtime_run N recv J topic (rt_start wk st1 w1) s"
  shows "rt_sent s = rt_served s @ pending (w_action_receiver (rt_worker s)) (rt_world s) \<and>
    n_gossipsub (w_swarm (rt_worker s)) = fold (gossip_action N) (rt_served s) (n_gossipsub (w_swarm wk))"
  using runtime_channel [OF assms(1,3) Worker_new_channel [OF assms(1,2)]] runtime_swarm [OF assms(3)]
  by (simp add: channel_inv_def swarm_inv_def rt_start_def)

theorem actions_served_in_order_witness:
  "rt_sent queue_node = BroadcastListen 1 ''t'' # rt_world queue_node \<and>
   n_gossipsub (w_swarm (rt_worker queue_node)) = ([], [''t''])"
proof -
  have "fold (gossip_action queue_net) [BroadcastListen 1 ''t''] (n_gossipsub (w_swarm queue_worker)) = ([], [''t''])"
    by code_simp
  with actions_served_in_order [OF queue_net_spec queue_worker_new queue_node_run [unfolded queue_node0_def]]
  show ?thesis by (simp only: queue_node_facts(3)) simp
qed

text \<open>C11. Queued actions are served: from every state of a running node in which the worker has not
  stopped, as many turns of the worker as there are queued actions do to the node exactly what the
  queue asks for. The actions are handed to gossipsub in order until one fails; the worker stops with
  the error of that action, or serves them all. Behind it, the gossipsub state is that after the
  actions served, the listeners of the actions that succeeded, and no others, were appended under the
  hash of their topic, and the later actions still wait in the channel.\<close>

theorem queued_actions_served:
  assumes "action_channel_spec N recv feeds pending" "Worker_new N BL info st w = (Ok wk, st1, w1)"
    and "runtime_run N recv J topic (rt_start wk st1 w1) s" "rt_error s = None"
    and "pending (w_action_receiver (rt_worker s)) (rt_world s) = queue"
    and "serve_spec N queue (n_gossipsub (w_swarm (rt_worker s))) = (oks, failed, gs)"
    and "s' = (rt_serve N recv ^^ length queue) s"
  shows "rt_error s' = map_option snd failed \<and>
    rt_served s' = rt_served s @ oks @ map fst (opt_list failed) \<and>
    rt_sent s = rt_served s' @ pending (w_action_receiver (rt_worker s')) (rt_world s') \<and>
    n_gossipsub (w_swarm (rt_worker s')) = gs \<and>
    (\<forall>h. listeners_at (rt_worker s') h = listeners_at (rt_worker s) h @ listens_at N h oks)"
  using rt_serve_all [OF assms(1,4) arg_cong [OF assms(5), where f = length]]
    runtime_channel [OF assms(1,3) Worker_new_channel [OF assms(1,2)]]
  by (simp add: serves_as_def channel_inv_def assms(5-7))

theorem queued_actions_served_witness:
  "rt_error ((rt_serve queue_net queue_recv ^^ 4) queue_wait) = Some (GossipsubPublish ''InsufficientPeers'') \<and>
   n_gossipsub (w_swarm (rt_worker ((rt_serve queue_net queue_recv ^^ 4) queue_wait))) =
     ([(''t'', [42])], [''t'']) \<and>
   listeners_at (rt_worker ((rt_serve queue_net queue_recv ^^ 4) queue_wait)) ''t'' = [1]"
  using queued_actions_served [OF queue_net_spec queue_worker_new queue_wait_run [unfolded queue_node0_def]
      queue_wait_facts(1) refl queue_wait_facts(2) refl]
  by (simp add: queue_wait_facts(3-5))

text \<open>C37. In every state of a running node every service reads the local information that was set
  last, or that of the start, and an empty list of peers, while the peer information that the swarm
  exchanges with other nodes is still that of the start. (Nothing of the worker writes the list of
  peers or passes new local information on.)\<close>

theorem runtime_shared_cells:
  assumes "Worker_new N BL info st w = (Ok wk, st1, w1)" "runtime_run N recv J topic (rt_start wk st1 w1) s"
  shows "Service_local_info (rt_store s) (Worker_service wk) = Return (last (info # rt_infos s)) \<and>
    Service_peers (rt_store s) (Worker_service wk) = Return [] \<and>
    b_local_info (n_peer_info (w_swarm (rt_worker s))) = \<lparr>pfi_info = info\<rparr>"
  using runtime_cells [OF assms(2) Worker_new_cells [OF assms(1)]] runtime_swarm [OF assms(2)]
    Worker_new_Ok(3) [OF assms(1)]
  by (auto simp: cells_inv_def swarm_inv_def rt_start_def)

theorem runtime_shared_cells_witness:
  "Service_local_info (rt_store queue_node) (Worker_service queue_worker) = Return [5] \<and>
   Service_peers (rt_store queue_node) (Worker_service queue_worker) = Return [] \<and>
   b_local_info (n_peer_info (w_swarm (rt_worker queue_node))) = \<lparr>pfi_info = [1]\<rparr>"
  using runtime_shared_cells [OF queue_worker_new queue_node_run [unfolded queue_node0_def]]
  by (simp add: queue_node_facts(4))

end
