(* ===== verification/ExampleMain.thy ===== *)
theory ExampleMain
  imports WorkerProperties
begin

text \<open>
  The example \<open>blocknet/examples/simple_libp2p.rs\<close>: a node that is built and run until it ends. The
  events are those that the swarm delivers; the result \<open>None\<close> says that \<open>main\<close> still waits when they
  are used up. \<open>joined\<close>, a parameter, is what awaiting a task of \<open>tokio\<close> gives when the task ended with
  an error. The crate \<open>tinyjam\<close> is one struct so far, which is here as well.
\<close>

record 'consensus Jam_State =
  jam_consensus :: 'consensus

record PeerInfo =
  best_block :: u64

type_synonym JoinError = string

datatype main_error = Main_net NetError | Main_join JoinError

definition example_main ::
  "('gs, 'h, 's, 'r, 'as, 'ar, 'w) NetLib \<Rightarrow> ('gs, 'kad, 'idf, 'la, 'ea, 'o, 'mdns, 'rr) BuildLib \<Rightarrow>
     (NetError \<Rightarrow> (NetError, JoinError) Result) \<Rightarrow> ('s, 'h) step_event list \<Rightarrow> PeerInfo cell_store \<Rightarrow> 'w \<Rightarrow>
     (unit, main_error) Result option" where
  "example_main N BL joined es st w =
     (case Worker_new N BL \<lparr>best_block = 1\<rparr> st w of
        (Err e, _, _) \<Rightarrow> Some (Err (Main_net e))
      | (Ok worker, _, w1) \<Rightarrow>
          (case Worker_run N es worker w1 of
             (None, _, _) \<Rightarrow> None
           | (Some err, _, _) \<Rightarrow>
               (case joined err of Err e \<Rightarrow> Some (Err (Main_join e)) | Ok _ \<Rightarrow> Some (Ok ()))))"

text \<open>Without actions a worker that has no listeners serves every event and does not change.\<close>

lemma run_without_listeners:
  assumes "w_broadcast_listen_senders wk = []" "\<forall>e \<in> set es. \<forall>a. e \<noteq> Action a"
  shows "Worker_run N es wk w = (None, wk, w)"
  using assms(2)
proof (induction es)
  case (Cons e es)
  have "Worker_step N e wk w = (Ok (), wk, w)"
    using Cons.prems assms(1) by (cases e) (simp_all add: step_gossip_def)
  with Cons show ?case by simp
qed simp

section \<open>Properties\<close>

text \<open>C38. The example returns an error exactly if the worker cannot be built, and otherwise it runs
  on whatever the network does: it holds no service, so that no action is ever queued, and no
  event of the swarm can then make the worker stop.\<close>

theorem example_runs_on:
  assumes "\<forall>e \<in> set es. \<forall>a. e \<noteq> Action a"
  shows "example_main N BL joined es st w =
    (case fst (Worker_new N BL \<lparr>best_block = 1\<rparr> st w) of Err e \<Rightarrow> Some (Err (Main_net e)) | Ok _ \<Rightarrow> None)"
proof -
  obtain r st1 w1 where new: "Worker_new N BL \<lparr>best_block = 1\<rparr> st w = (r, st1, w1)" by (metis prod_cases3)
  show ?thesis
  proof (cases r)
    case (Ok wk)
    have "w_broadcast_listen_senders wk = []" by (rule Worker_new_Ok(4) [OF new [unfolded Ok]])
    with new Ok show ?thesis by (simp add: example_main_def run_without_listeners [OF _ assms])
  qed (simp add: new example_main_def)
qed

theorem example_runs_on_witness:
  "example_main demo_net demo_build Ok [Gossip demo_gossip_message, OtherSwarmEvent] \<lparr>st_peers = [], st_info = []\<rparr> [] =
     None \<and>
   example_main demo_net (demo_build\<lparr>with_tcp := Err ''noise''\<rparr>) Ok [OtherSwarmEvent] \<lparr>st_peers = [], st_info = []\<rparr> [] =
     Some (Err (Main_net (Noise ''noise'')))"
proof -
  let ?st = "\<lparr>st_peers = [], st_info = []\<rparr> :: PeerInfo cell_store"
  have "is_ok (fst (Worker_new demo_net demo_build \<lparr>best_block = 1\<rparr> ?st []))"
    "fst (Worker_new demo_net (demo_build\<lparr>with_tcp := Err ''noise''\<rparr>) \<lparr>best_block = 1\<rparr> ?st []) = Err (Noise ''noise'')"
    by code_simp+
  with example_runs_on [of "[Gossip demo_gossip_message, OtherSwarmEvent]" demo_net demo_build Ok ?st "[]"]
    example_runs_on [of "[OtherSwarmEvent]" demo_net "demo_build\<lparr>with_tcp := Err ''noise''\<rparr>" Ok ?st "[]"]
  show ?thesis by (auto simp: is_ok_iff)
qed

end
