(* ===== verification/Spec2Isabelle.thy ===== *)
theory Spec2Isabelle
  imports SkipListSearch BlockBuilding PeerNodeProperties NodeRuntime ExampleMain
begin

text \<open>
  A verification of the Rust repository \<open>rust-chain\<close>: a framework for blockchains with forks
  (crate \<open>blockchain\<close>) and the network layer of its nodes (crate \<open>blocknet\<close>, with the helper crate
  \<open>sync-extra\<close>). This header says which part of the program each theory models, how the model
  corresponds to the code, what is proved, and what is left out.

  \<^bold>\<open>The program.\<close> A \<^emph>\<open>fork tree\<close> stores blocks by identifier, with their depth, their children and a
  skip list of ancestors; it answers whether one block is an ancestor of another. A \<^emph>\<open>flat state\<close>
  stores, for every key, the values that blocks wrote, and reads a key at a block as the value of
  the nearest ancestor that wrote it, with the help of a fork tree. An \<^emph>\<open>overlay\<close> collects changes on
  top of a flat state at a block. A \<^emph>\<open>transaction\<close> runs an operation on two copies so that a failed
  operation can be undone. The chain of the integration test composes all four. On the network
  side, a \<^emph>\<open>worker\<close> owns a swarm of connections with a number of protocols, one of which, \<open>peer_info\<close>,
  is implemented in this repository by a \<^emph>\<open>behaviour\<close> (one per node) and a \<^emph>\<open>handler\<close> (one per
  connection) over a \<^emph>\<open>codec\<close>; applications talk to the worker through \<^emph>\<open>service\<close> handles.

  \<^bold>\<open>Conventions.\<close> A struct is a record with the field names of the code behind a prefix, an enum a
  datatype, a trait with operations a record of functions, and a method \<open>T::f\<close> the definition
  \<open>T_f\<close>, or \<open>f\<close> where that is unique. \<open>&mut self\<close> is state passing; \<open>Result\<close> is the datatype of the
  prelude, with \<open>and_then\<close> for the question mark. \<open>usize\<close>, \<open>u32\<close>, \<open>u64\<close> and \<open>u8\<close> are machine words
  of the width on a 64-bit target; the additions of the code wrap as in a release build, where a build
  with overflow checks (that of \<open>cargo test\<close>) panics, and the theorems that depend on it have the
  hypothesis \<open>depth_room\<close>, which excludes the overflow. A
  \<open>HashMap\<close> is an association list with distinct keys in an unspecified but fixed order; a
  \<open>BTreeMap\<close> is kept sorted. Code of other packages (\<open>itertools\<close>, \<open>serde_json\<close>, \<open>futures\<close>, \<open>libp2p\<close>)
  is a parameter, and what is assumed of it is a named predicate: \<open>unique_spec\<close>, \<open>serde_roundtrip\<close>,
  \<open>futures_set_spec\<close>, \<open>closed_channel_spec\<close>, \<open>swarm_valid\<close>, \<open>books_spec\<close>, \<open>action_channel_spec\<close>. The
  witnesses instantiate them.

  \<^bold>\<open>Theories, in the order of the dependencies.\<close>

  \<^item> \<open>Prelude\<close>: words, results, maps and the entry API (locale \<open>keyed_map\<close>, interpreted on both kinds
    of maps).
  \<^item> \<open>ForkTree\<close>: the traits of \<open>block.rs\<close> and \<open>chain.rs\<close>, each a record of its methods; the contract
    of \<open>ForkTree\<close> as the locales \<open>fork_tree\<close> (answers are right) and \<open>complete_fork_tree\<close> (and always
    given), that of \<open>ForkTreeMut\<close> as \<open>fork_tree_mut\<close> and that of \<open>BlockBuilder\<close> as \<open>block_builder\<close>.
  \<^item> \<open>MemoryForkTree\<close>, \<open>MemoryForkTreeInsert\<close>, \<open>ForkTreeProperties\<close>: \<open>memory/chain.rs\<close>. The search
    loop is a \<open>partial_function\<close>; it is proved to return on every tree whose stored links go up
    (\<open>links_descend\<close>), and with the right ancestor on every well-formed tree, so that no fuel is
    needed. The tree of the code satisfies \<open>fork_tree\<close>. \<open>search_ForkTree\<close> is no part of the program: it
    is the fork tree whose query is the same loop without the guard in front of it, an instance
    that shows \<open>complete_fork_tree\<close> to be satisfiable and serves in witnesses. The invariants
    \<open>wf_tree\<close> and \<open>index_ok\<close> are kept by an \<open>insert\<close> of a fresh block; \<open>insert_behaviour\<close> gives its
    outcome on every branch, \<open>reinsert_corrupts_index\<close> says what becomes of a block that is inserted
    twice, and \<open>reachable_depth_bound\<close> what follows for the trees that can be built.
  \<^item> \<open>SkipListSearch\<close>: the skip lists of the same file. The search takes logarithmically many rounds
    when every block has the skip list due at its depth (\<open>due_skips\<close>, \<open>skips_complete\<close>), which is what
    \<open>insert\<close> asks for; in the trees that the code can build no block is deep enough to have one.
  \<^item> \<open>FlatState\<close>: the traits and the overlay of \<open>state.rs\<close>, with the locale \<open>flat_state_mut\<close> for commits.
  \<^item> \<open>MemoryFlatState\<close>, \<open>MemoryFlatStateReads\<close>, \<open>StateProperties\<close>: \<open>memory/state.rs\<close>. The
    specification of a read is \<open>first_write\<close>, the first write on the path to the root. \<open>get\<close> and \<open>apply\<close>
    are generic over the fork tree: reads are sound, writes do not leak into other forks and an
    overlay commits what it showed, over every \<open>fork_tree\<close> as far as the reads succeed and over every
    \<open>complete_fork_tree\<close> without exception. Over the memory fork tree, which is a \<open>fork_tree\<close> but not
    a \<open>complete_fork_tree\<close>, the exact result of every read is given as well.
  \<^item> \<open>MemoryTransactional\<close>: \<open>memory/mod.rs\<close>, as a refinement of atomic operations on one copy
    (locale \<open>transactional\<close>), and what a change through \<open>deref_mut\<close> does to it. An operation is a
    function of the copy it runs on.
  \<^item> \<open>SimpleChain\<close>, \<open>ChainProperties\<close>: the chain of \<open>tests/simple.rs\<close>; imports are atomic, keep the
    invariant of all parts, and are read back.
  \<^item> \<open>BlockBuilding\<close>: the builder and the import together, over the dictionaries of their traits, with
    the interpretations of \<open>fork_tree_mut\<close> and \<open>block_builder\<close>.
  \<^item> \<open>SyncExtra\<close>: locks with poisoning and shared cells (locale \<open>shared_cell\<close>).
  \<^item> \<open>NetTypes\<close>: polls, durations, and the locale \<open>event_source\<close> for everything that is polled for
    queued events, interpreted on the handler (a stack) and on the behaviour (a queue).
  \<^item> \<open>PeerInfoCodec\<close>: \<open>protocol.rs\<close>, \<open>codec.rs\<close>, \<open>json.rs\<close>; the locale \<open>info_codec\<close> and its JSON instance.
  \<^item> \<open>PeerInfoHandler\<close>, \<open>HandlerTraces\<close>, \<open>HandlerProperties\<close>: \<open>handler.rs\<close>, its runs under arbitrary
    orders of calls, and the invariants of the runs. \<open>futures_set_spec\<close> is the contract of the set of
    futures, whose capacity is the one it was created with; \<open>conn_events\<close> are the connection events
    of a run, from which every future in flight (\<open>from_stream\<close>) and every report (\<open>truthful\<close>) stems.
  \<^item> \<open>PeerInfoBehaviour\<close>, \<open>BehaviourProperties\<close>: \<open>behaviour.rs\<close> and its runs in a swarm.
  \<^item> \<open>PeerNode\<close>, \<open>PeerNodeProperties\<close>: the behaviour with all its handlers in a swarm. The swarm is
    code of \<open>libp2p\<close>; \<open>node_run\<close> is its documented behaviour as a step relation (connections open and
    close, orders of the behaviour are delivered in the order of its polls, one at a time, \<open>Any\<close> to a
    connection of the swarm's choice). A node also keeps, for the statements only, the connection
    events of every handler. There is a handler for exactly the connections of the behaviour's
    table, what is reported about a peer happened on a connection with that peer, and the addresses
    reach every handler.
  \<^item> \<open>ServiceTraits\<close>: the traits of \<open>service.rs\<close>; the contract of \<open>Service\<close> is the locale
    \<open>service_interface\<close>.
  \<^item> \<open>Worker\<close>, \<open>WorkerProperties\<close>: \<open>libp2p/mod.rs\<close>, with the interpretation of \<open>service_interface\<close>.
  \<^item> \<open>NodeRuntime\<close>: the worker and its services as interleaved tasks over the action channel. Actions
    are served in the order sent and all of them, up to the first that fails, with the effect on
    gossipsub and on the listeners that \<open>serve_spec\<close> describes; the shared cells hold what was set
    last.
  \<^item> \<open>ExampleMain\<close>: the example program \<open>examples/simple_libp2p.rs\<close>, and the struct of \<open>tinyjam\<close>.
  \<^item> this theory: the exchange between two nodes, and what a node announces.

  \<^bold>\<open>What the theorems say about the code as it is.\<close> The guard in front of the search loop of
  \<open>ancestor_id_at_depth\<close> is turned around, so that the query answers only the depth of the block
  itself. The theorems about the memory fork tree therefore state what the code does (a chain ends
  at depth three, inherited values are errors), and the generic ones what the code around it does
  over fork trees that do better. In the same way \<open>gossip_drops_open_listeners\<close> states
  what the inverted condition of \<open>retain\<close> does.

  \<^bold>\<open>Bounds.\<close> The search loop needs no fuel; \<open>ancestor_rounds\<close> counts its rounds only to bound them,
  and \<open>6 * K + 1\<close> rounds are proved enough for a distance below \<open>4 ^ K\<close> with \<open>K\<close> at most 17. The JSON
  codec reads at most 1 MiB; a handler has at most ten streams in flight; both bounds are those of the code. \<open>run\<close>
  of the worker is modelled over the list of the events it serves, of any length; the runs of a node
  and of its tasks are inductive relations without a bound.

  \<^bold>\<open>Not modelled.\<close> Logging; the internals of other packages, and with them the progress of the swarm
  between events, the buffering of orders on their way to a handler, the capacity of the channels
  and awaits that never resolve. What was written to a stream is assumed to arrive completely and to
  be followed by the end of the stream (\<open>remote_end\<close>), although \<open>json.rs\<close> neither flushes nor closes
  it. Left out too: module files, which hold re-exports only. The traits
  \<open>ForkTreeTransactional\<close>, \<open>FlatStateTransactional\<close>, \<open>NotifyService\<close> and \<open>RequestService\<close> are records
  of methods without an instance, since nothing implements them.

  \<^bold>\<open>Plan.\<close> Left for later: networks of several nodes with interleaved runs of their workers and
  handlers, the capacity of the action channel, and the rates of the periodic identification.
\<close>

section \<open>The exchange of peer information\<close>

lemma swarm_run_local_info:
  assumes "swarm_run B b0 l b"
  shows "b_local_info b = b_local_info b0"
  using assms
proof induction
  case (swarm_event l b e)
  then show ?case
    by (cases e) (auto simp: on_swarm_event_def on_connection_established_def Let_def split: prod.split)
next
  case (swarm_poll l b)
  then show ?case by (simp add: Behaviour_poll_def split: list.split)
qed (simp_all add: on_connection_handler_event_def push_append)

text \<open>What arrives at the other end of a stream once a write of a handler has finished: everything that
  was written, followed by the end of the stream. The code itself neither flushes nor closes the
  stream; \<open>remote_end\<close> stands for the case that the transport delivers it all the same.\<close>

fun delivers ::
  "(io_stream, 'info, 'push) Codec \<Rightarrow> (io_stream, 'info, 'push) stream_future \<Rightarrow> io_stream \<Rightarrow> bool" where
  "delivers C (Fut_write_info io info) s \<longleftrightarrow>
     out_bytes io = [] \<and> (\<exists>io'. codec_write_info C io info = (Ok (), io') \<and> s = remote_end io')"
| "delivers C (Fut_write_push_info io push) s \<longleftrightarrow>
     out_bytes io = [] \<and> (\<exists>io'. codec_write_push_info C io push = (Ok (), io') \<and> s = remote_end io')"
| "delivers C _ s \<longleftrightarrow> False"

lemma delivered_info:
  fixes J :: "'i PeerFullInfo Serde"
  assumes "serde_roundtrip J" "fits_limit J li" "delivers (json_Codec J J) f s"
    and "from_stream PeerFullInfo_Info li E f"
  shows "codec_read_info (json_Codec J J) s = Ok li" and "codec_read_push_info (json_Codec J J) s = Ok li"
proof -
  obtain io io' where io: "out_bytes io = []" "write_info J io li = (Ok (), io')" "s = remote_end io'"
  proof (cases f)
    case (Fut_write_info io info)
    then have "info = li" using assms(4) by (auto simp: from_stream_def elim!: stream_task.elims)
    with Fut_write_info assms(3) that show ?thesis by (auto simp: json_Codec_def)
  next
    case (Fut_write_push_info io info)
    then have "info = li" using assms(4)
      by (auto simp: from_stream_def PeerFullInfo_Info_def elim!: stream_task.elims)
    with Fut_write_push_info assms(3) that show ?thesis by (auto simp: json_Codec_def push_same_format)
  qed (use assms(3) in simp_all)
  from json_roundtrip [OF assms(1) io(1) assms(2) io(2)] io(3)
  show "codec_read_info (json_Codec J J) s = Ok li" "codec_read_push_info (json_Codec J J) s = Ok li"
    by (simp_all add: json_Codec_def push_same_format)
qed

lemma heard_only:
  assumes "heard PeerFullInfo_Info C E info"
    and "\<And>io i. FullyNegotiatedOutbound (Left io) \<in> E \<Longrightarrow> codec_read_info C io = Ok i \<Longrightarrow> i = li"
    and "\<And>io i. FullyNegotiatedInbound (Right io) \<in> E \<Longrightarrow> codec_read_push_info C io = Ok i \<Longrightarrow> i = li"
  shows "info = li"
  using assms by induction (auto simp: PeerFullInfo_Info_def PeerFullInfo_merge_def)

text \<open>C31. Two connected nodes exchange their information. The handlers \<open>a\<close> and \<open>b\<close> are new, with
  arbitrary contexts, timers and other events, and run for as long as they like. If every stream that
  \<open>b\<close> reads, the answer to its request or a push, carries what some stream that \<open>a\<close> had in flight
  wrote, then every read that \<open>b\<close> has in flight yields the local information of \<open>a\<close>, every
  identification that \<open>b\<close> reports is this information, and \<open>b\<close> never stores anything else about its
  peer. (JSON codec, information of at most 1 MiB, \<open>serde_json\<close> parsing what it printed, complete
  delivery of what was written.)\<close>

theorem identify_exchange:
  fixes J :: "'i PeerFullInfo Serde"
  assumes "futures_set_spec L (json_Codec J J) inflight cap" "serde_roundtrip J"
    and "to_vec J li = Ok data" "length data \<le> 1024 * 1024"
    and "\<And>s. FullyNegotiatedOutbound (Left s) \<in> conn_events ins \<or> FullyNegotiatedInbound (Right s) \<in> conn_events ins \<Longrightarrow>
      \<exists>ins_a f. f \<in># inflight (h_active_streams (snd (run_handler PeerFullInfo_Info L ins_a
          (Handler_new L d peer_b addrs li n pn)))) \<and> delivers (json_Codec J J) f s"
    and "run_handler PeerFullInfo_Info L ins (Handler_new L d' peer_a addrs' li' n pn) = (outs, b)"
  shows "(\<forall>i. NotifyBehaviour (Identified i) \<in> set outs \<longrightarrow> i = li) \<and> h_remote_info b \<in> {None, Some li} \<and>
    (\<forall>s. Fut_read_info s \<in># inflight (h_active_streams b) \<longrightarrow>
      future_output (json_Codec J J) (Fut_read_info s) = Ok (ReceivedIdentify li)) \<and>
    (\<forall>s. Fut_read_push_info s \<in># inflight (h_active_streams b) \<longrightarrow>
      future_output (json_Codec J J) (Fut_read_push_info s) = Ok (ReceivedIdentifyPush li))"
proof -
  let ?C = "json_Codec J J" and ?E = "conn_events ins"
  have fits: "fits_limit J li" using assms(3,4) by (simp add: fits_limit_def SIZE_MAXIMUM_def)
  have read: "codec_read_info ?C s = Ok li \<and> codec_read_push_info ?C s = Ok li"
    if s: "FullyNegotiatedOutbound (Left s) \<in> ?E \<or> FullyNegotiatedInbound (Right s) \<in> ?E" for s
  proof -
    obtain ins_a f where f: "f \<in># inflight (h_active_streams (snd (run_handler PeerFullInfo_Info L ins_a
        (Handler_new L d peer_b addrs li n pn))))" "delivers ?C f s" using assms(5) [OF s] by blast
    have "from_stream PeerFullInfo_Info li (conn_events ins_a) f"
      using new_run_truthful(1,2) [OF assms(1) prod.collapse [symmetric], of PeerFullInfo_Info ins_a d peer_b addrs li n pn]
        f(1) by (simp add: flight_ok_def)
    from delivered_info [OF assms(2) fits f(2) this] show ?thesis by simp
  qed
  have only: "i = li" if "heard PeerFullInfo_Info ?C ?E i" for i
    by (rule heard_only [OF that]) (use read in fastforce)+
  note b = new_run_truthful [OF assms(1,6)]
  have "Fut_read_info s \<in># inflight (h_active_streams b) \<Longrightarrow> FullyNegotiatedOutbound (Left s) \<in> ?E"
    "Fut_read_push_info s \<in># inflight (h_active_streams b) \<Longrightarrow> FullyNegotiatedInbound (Right s) \<in> ?E" for s
    using b(1) by (auto simp: flight_ok_def from_stream_def elim!: stream_task.elims dest!: bspec)
  with read have "\<forall>s. Fut_read_info s \<in># inflight (h_active_streams b) \<longrightarrow> codec_read_info ?C s = Ok li"
    "\<forall>s. Fut_read_push_info s \<in># inflight (h_active_streams b) \<longrightarrow> codec_read_push_info ?C s = Ok li" by blast+
  moreover have "h_remote_info b \<in> {None, Some li}"
    using b(1) only by (cases "h_remote_info b") (auto simp: flight_ok_def)
  moreover have "\<forall>i. NotifyBehaviour (Identified i) \<in> set outs \<longrightarrow> i = li" using b(3) only by fastforce
  ultimately show ?thesis by simp
qed

text \<open>The handler with the information \<open>[9]\<close> answers a request, and the handler with the information
  \<open>[4]\<close> reads the answer.\<close>

definition full_serde :: "u8 list PeerFullInfo Serde" where
  "full_serde = \<lparr>to_vec = (\<lambda>i. Ok (pfi_info i)), from_slice = (\<lambda>v. Ok \<lparr>pfi_info = v\<rparr>)\<rparr>"

definition full_handler where
  "full_handler li = Handler_new (bounded_lib (json_Codec full_serde full_serde)) (Duration_from_secs 300) [1] {}
     \<lparr>pfi_info = li\<rparr> ''/a'' ''/b''"

definition answer_stream :: io_stream where
  "answer_stream = remote_end (snd (write_info full_serde (demo_stream []) \<lparr>pfi_info = [9]\<rparr>))"

theorem identify_exchange_witness:
  "let outs = fst (run_handler PeerFullInfo_Info (bounded_lib (json_Codec full_serde full_serde))
       [In_connection (FullyNegotiatedOutbound (Left answer_stream)), In_poll (False, True)] (full_handler [4]))
   in \<exists>i. outs = [NotifyBehaviour (Identified i)] \<and> i = \<lparr>pfi_info = [9]\<rparr>"
proof -
  let ?C = "json_Codec full_serde full_serde"
  let ?L = "bounded_lib ?C"
  let ?ins = "[In_connection (FullyNegotiatedOutbound (Left answer_stream)), In_poll (False, True)]
    :: (io_stream, nat, bool \<times> bool) handler_input list"
  let ?ins_a = "[In_connection (FullyNegotiatedInbound (Left (demo_stream [])))]
    :: (io_stream, nat, bool \<times> bool) handler_input list"
  let ?f = "Fut_write_info (demo_stream []) \<lparr>pfi_info = [9]\<rparr>"
  have rt: "serde_roundtrip full_serde" by (simp add: serde_roundtrip_def full_serde_def)
  have vec: "to_vec full_serde \<lparr>pfi_info = [9]\<rparr> = Ok [9]" by (simp add: full_serde_def)
  have a: "?f \<in> set (snd (h_active_streams (snd (run_handler PeerFullInfo_Info ?L ?ins_a (full_handler [9])))))"
    by code_simp
  have d: "delivers ?C ?f answer_stream"
    by (simp add: answer_stream_def json_Codec_def write_info_def write_all_def full_serde_def demo_stream_def)
  obtain b where run: "run_handler PeerFullInfo_Info ?L ?ins (full_handler [4]) =
      ([NotifyBehaviour (Identified \<lparr>pfi_info = [9]\<rparr>)], b)"
  proof -
    have "fst (run_handler PeerFullInfo_Info ?L ?ins (full_handler [4])) =
      [NotifyBehaviour (Identified \<lparr>pfi_info = [9]\<rparr>)]" by code_simp
    then show ?thesis using that by (metis prod.collapse)
  qed
  have "\<forall>i. NotifyBehaviour (Identified i) \<in> set (fst (run_handler PeerFullInfo_Info ?L ?ins (full_handler [4]))) \<longrightarrow>
      i = \<lparr>pfi_info = [9]\<rparr>"
    using identify_exchange [OF bounded_lib_spec rt vec _ _ run [unfolded full_handler_def], of "Duration_from_secs 300" "[1]" "{}"] a d run
    by (fastforce simp: full_handler_def)
  with run show ?thesis by (simp add: Let_def)
qed

text \<open>C32. The information that a node announces never changes: after any number of calls of
  \<open>set_local_info\<close> the service reads the new information, but every handler that the behaviour
  creates, at any time and for connections in both directions, announces the information that the
  worker was created with.\<close>

theorem announced_info_is_initial:
  assumes "Worker_new N BL info st w = (Ok wk, st1, w1)"
    and "swarm_run B (n_peer_info (w_swarm wk)) l b"
  shows "(\<exists>st2. set_seq Service_ServiceT (Worker_service wk) infos st1 = Return st2 \<and>
      Service_local_info st2 (Worker_service wk) = Return (last (info # infos))) \<and>
    map_ok h_local_info (handle_established_inbound_connection L B peer b) = Ok \<lparr>pfi_info = info\<rparr> \<and>
    map_ok h_local_info (handle_established_outbound_connection L B peer b) = Ok \<lparr>pfi_info = info\<rparr>"
proof -
  note new = Worker_new_Ok [OF assms(1)]
  have "b_local_info b = \<lparr>pfi_info = info\<rparr>" using swarm_run_local_info [OF assms(2)] new(3) by simp
  moreover have "\<exists>st2. set_seq Service_ServiceT (Worker_service wk) infos st1 = Return st2 \<and>
      Service_local_info st2 (Worker_service wk) = Return (last (info # infos))"
    using svc.set_all_last [of st1 "Worker_service wk" info infos] new(1) by auto
  ultimately show ?thesis
    by (simp add: handle_established_inbound_connection_def handle_established_outbound_connection_def Handler_new_def)
qed

theorem announced_info_is_initial_witness:
  "(\<exists>st2. set_seq Service_ServiceT (Worker_service demo_worker) [[5]] (fst (snd demo_start)) = Return st2 \<and>
      Service_local_info st2 (Worker_service demo_worker) = Return [5]) \<and>
    map_ok h_local_info (handle_established_inbound_connection demo_lib
      (address_books demo_build) [8] (n_peer_info (w_swarm demo_worker))) = Ok \<lparr>pfi_info = [1]\<rparr>"
  using announced_info_is_initial [OF demo_worker_new [unfolded demo_start_def] swarm_start, of "[[5]]"
      demo_lib "address_books demo_build" "[8]"]
  by (simp add: demo_start_def)

end
